theory Spec2Isabelle
  imports Complex_Main "HOL-Library.Multiset"
begin

section \<open>Data model\<close>

text \<open>
  The path-editing engine of ShapeShifter: \<^verbatim>\<open>CommandState\<close> (one backing command with
  its list of mutations) and \<^verbatim>\<open>PathMutator\<close> (the builder over the forest of sub-path
  states). JavaScript numbers that hold curve parameters are IEEE 754 doubles: they
  are modelled by the rational numbers they denote, and every arithmetic operation on
  them rounds its exact result to the nearest double (see below). Array indices and
  counters are natural numbers or integers.
  Identifiers produced by lodash's \<^verbatim>\<open>_.uniqueId()\<close> (the decimal rendering of a global
  counter that is incremented at each call) are modelled by the counter value itself,
  and the counter is passed explicitly through every function that draws an id.
\<close>

datatype SvgChar = SvgM | SvgL | SvgQ | SvgC | SvgZ

subsection \<open>Double-precision arithmetic\<close>

text \<open>
  Every finite double is a rational number \<open>m * 2\<^sup>e\<close> with \<open>|m| < 2\<^sup>5\<^sup>3\<close>, and comparisons of
  doubles are comparisons of these rationals. The operators \<^verbatim>\<open>+\<close>, \<^verbatim>\<open>-\<close>, \<^verbatim>\<open>*\<close> and \<^verbatim>\<open>/\<close>
  return the exact result rounded to the nearest double, ties to the even significand.
  \<open>binade_hi\<close> and \<open>binade_lo\<close> compute \<open>\<lfloor>log\<^sub>2 x\<rfloor>\<close> for \<open>x \<ge> 1\<close> and for \<open>0 < x < 1\<close>; the
  spacing of the doubles around \<open>x\<close> is \<open>2\<close> to the power \<open>\<lfloor>log\<^sub>2 |x|\<rfloor> - 52\<close>, and \<open>2\<^sup>-\<^sup>1\<^sup>0\<^sup>7\<^sup>4\<close> in
  the subnormal range. Overflow to \<^verbatim>\<open>Infinity\<close> is outside the model: the numbers
  computed with here are curve parameters around \<open>[0, 1]\<close>.
\<close>

function binade_hi :: "rat \<Rightarrow> int" where
  "binade_hi x = (if 2 \<le> x then binade_hi (x / 2) + 1 else 0)"
  by pat_completeness auto
termination
proof (relation "measure (\<lambda>x. nat \<lfloor>x\<rfloor>)")
  show "wf (measure (\<lambda>x::rat. nat \<lfloor>x\<rfloor>))" by simp
next
  fix x :: rat assume "2 \<le> x"
  then have "x / 2 \<le> x - 1" by simp
  then have "\<lfloor>x / 2\<rfloor> \<le> \<lfloor>x - 1\<rfloor>" by (rule floor_mono)
  moreover have "1 \<le> \<lfloor>x\<rfloor>" using \<open>2 \<le> x\<close> by (simp add: le_floor_iff)
  ultimately show "(x / 2, x) \<in> measure (\<lambda>x. nat \<lfloor>x\<rfloor>)" by simp
qed

function binade_lo :: "rat \<Rightarrow> int" where
  "binade_lo x = (if 0 < x \<and> x < 1 then binade_lo (2 * x) - 1 else 0)"
  by pat_completeness auto
termination
proof (relation "measure (\<lambda>x. nat \<lceil>1 / x\<rceil>)")
  show "wf (measure (\<lambda>x::rat. nat \<lceil>1 / x\<rceil>))" by simp
next
  fix x :: rat assume a: "0 < x \<and> x < 1"
  then have "1 < 1 / x" by simp
  then have c: "2 \<le> \<lceil>1 / x\<rceil>" by (simp add: le_ceiling_iff)
  have "1 / (2 * x) = (1 / x) / 2" by simp
  also have "\<dots> \<le> of_int \<lceil>1 / x\<rceil> / 2" by (simp add: divide_right_mono)
  also have "\<dots> \<le> of_int (\<lceil>1 / x\<rceil> - 1)" using c by simp
  finally have "\<lceil>1 / (2 * x)\<rceil> \<le> \<lceil>1 / x\<rceil> - 1" by (simp only: ceiling_le_iff)
  with c a show "(2 * x, x) \<in> measure (\<lambda>x. nat \<lceil>1 / x\<rceil>)" by simp
qed

declare binade_hi.simps [simp del] binade_lo.simps [simp del]

definition round_half_even :: "rat \<Rightarrow> int" where
  "round_half_even y =
     (let f = \<lfloor>y\<rfloor>; r = y - of_int f
      in if r < 1 / 2 then f
         else if 1 / 2 < r then f + 1
         else if even f then f else f + 1)"

definition pow2 :: "int \<Rightarrow> rat" where
  "pow2 e = (if 0 \<le> e then 2 ^ nat e else 1 / 2 ^ nat (- e))"

definition toDouble :: "rat \<Rightarrow> rat" where
  "toDouble x =
     (if x = 0 then 0
      else (let a = \<bar>x\<bar>;
                e = max (if 1 \<le> a then binade_hi a else binade_lo a) (- 1022);
                ulp = pow2 (e - 52)
            in of_int (round_half_even (x / ulp)) * ulp))"

definition dadd :: "rat \<Rightarrow> rat \<Rightarrow> rat" where
  "dadd a b = toDouble (a + b)"

definition dsub :: "rat \<Rightarrow> rat \<Rightarrow> rat" where
  "dsub a b = toDouble (a - b)"

definition dmul :: "rat \<Rightarrow> rat \<Rightarrow> rat" where
  "dmul a b = toDouble (a * b)"


section \<open>Commands, mutations and calculators\<close>

type_synonym Point = "rat \<times> rat"

text \<open>
  A command. The class \<^verbatim>\<open>CommandImpl\<close> is not among the source files; the record has
  one field per accessor the code calls on a command. A point may be \<^verbatim>\<open>undefined\<close>
  (\<^verbatim>\<open>build()\<close> clears the start point of the first command), hence the option.
\<close>

record Command =
  getSvgChar :: SvgChar
  getPoints :: "Point option list"
  getId :: nat
  isSplitPoint :: bool

text \<open>Modelled from the spec: \<^verbatim>\<open>getStart\<close> and \<^verbatim>\<open>getEnd\<close> of the absent command
  class are the first and the last entry of the ordered point list (\<^verbatim>\<open>undefined\<close>
  when there is none).\<close>

definition getStart :: "Command \<Rightarrow> Point option" where
  "getStart cmd = (case getPoints cmd of [] \<Rightarrow> None | p # _ \<Rightarrow> p)"

definition getEnd :: "Command \<Rightarrow> Point option" where
  "getEnd cmd = (case getPoints cmd of [] \<Rightarrow> None | _ # _ \<Rightarrow> last (getPoints cmd))"

datatype error =
    TypeError
  | UndefinedValue
  | InvalidCommandType "SvgChar option"
  | MustSpecifyT
  | ErrorRetrievingCommandMutation

text \<open>
  \<^verbatim>\<open>TypeError\<close> is JavaScript's failure on a property access of \<^verbatim>\<open>undefined\<close> (an array
  read out of range followed by a field access). \<^verbatim>\<open>UndefinedValue\<close> marks the places
  where the code would go on with \<^verbatim>\<open>undefined\<close> or \<^verbatim>\<open>NaN\<close> stored as the \<open>t\<close> or the id of
  a mutation (a split or a conversion at an index outside the mutation list); the model
  stops there. The other three are the \<^verbatim>\<open>throw\<close> statements of the source; the kind in
  \<open>InvalidCommandType\<close> is the one the message prints, possibly \<^verbatim>\<open>undefined\<close>.
\<close>

definition andThen :: "error + 'a \<Rightarrow> ('a \<Rightarrow> error + 'b) \<Rightarrow> error + 'b" where
  "andThen r f = (case r of Inl e \<Rightarrow> Inl e | Inr v \<Rightarrow> f v)"

text \<open>A mutation. Its kind is read from an array and is \<^verbatim>\<open>undefined\<close> (\<open>None\<close>) when the
  private \<^verbatim>\<open>split\<close> reads past the end of the kinds.\<close>

record Mutation =
  mut_id :: nat
  mut_t :: rat
  mut_svgChar :: "SvgChar option"

record 'n ProjectionResult =
  pr_x :: rat
  pr_y :: rat
  pr_t :: 'n
  pr_d :: rat

text \<open>
  The \<^verbatim>\<open>Calculator\<close> interface: an object whose \<^verbatim>\<open>split\<close> and \<^verbatim>\<open>convert\<close> methods
  return calculators again. Only \<^verbatim>\<open>PointCalculator\<close> is among the source files; every
  theorem below that does not name it holds for an arbitrary calculator.
\<close>

codatatype Calculator = Calculator
  (project: "Point \<Rightarrow> rat ProjectionResult option")
  (split: "rat \<Rightarrow> rat \<Rightarrow> Calculator")
  (convert: "SvgChar option \<Rightarrow> Calculator")
  (findTimeByDistance: "rat \<Rightarrow> rat")
  (toCommand: "error + Command")

text \<open>\<^verbatim>\<open>PointCalculator.toCommand\<close>; the command builder's defaults (no id yet, not a
  split point) are overwritten by \<^verbatim>\<open>CommandStateMutator.build\<close>.\<close>

definition PointCalculator_toCommand :: "SvgChar option \<Rightarrow> Point \<Rightarrow> error + Command" where
  "PointCalculator_toCommand svgChar point =
     (case svgChar of
        Some SvgL \<Rightarrow> Inr \<lparr>getSvgChar = SvgL, getPoints = [Some point, Some point],
                          getId = 0, isSplitPoint = False\<rparr>
      | Some SvgZ \<Rightarrow> Inr \<lparr>getSvgChar = SvgZ, getPoints = [Some point, Some point],
                          getId = 0, isSplitPoint = False\<rparr>
      | Some SvgQ \<Rightarrow> Inr \<lparr>getSvgChar = SvgQ,
                          getPoints = [Some point, Some point, Some point],
                          getId = 0, isSplitPoint = False\<rparr>
      | Some SvgC \<Rightarrow> Inr \<lparr>getSvgChar = SvgC,
                          getPoints = [Some point, Some point, Some point, Some point],
                          getId = 0, isSplitPoint = False\<rparr>
      | _ \<Rightarrow> Inl (InvalidCommandType svgChar))"

text \<open>\<^verbatim>\<open>PointCalculator\<close>; \<^verbatim>\<open>MathUtil.distance\<close> is absent and taken as the parameter
  \<open>distance\<close>.\<close>

primcorec PointCalculator :: "(Point \<Rightarrow> Point \<Rightarrow> rat) \<Rightarrow> SvgChar option \<Rightarrow> Point
                              \<Rightarrow> Calculator" where
  "project (PointCalculator distance svgChar point) =
     (\<lambda>p. Some \<lparr>pr_x = fst point, pr_y = snd point, pr_t = 1 / 2, pr_d = distance point p\<rparr>)"
| "split (PointCalculator distance svgChar point) =
     (\<lambda>t1 t2. PointCalculator distance svgChar point)"
| "convert (PointCalculator distance svgChar point) =
     (\<lambda>svgChar'. PointCalculator distance svgChar' point)"
| "findTimeByDistance (PointCalculator distance svgChar point) = (\<lambda>d. d)"
| "toCommand (PointCalculator distance svgChar point) = PointCalculator_toCommand svgChar point"

text \<open>The calculator is evaluated through its five methods above, never by unfolding
  the object itself.\<close>

declare PointCalculator.code [code del]

text \<open>Modelled from the spec: transforms are affine matrices; \<^verbatim>\<open>new Matrix()\<close> is the
  identity. The class \<^verbatim>\<open>Matrix\<close> is absent and no theorem below depends on its
  entries.\<close>

type_synonym Matrix = "rat \<times> rat \<times> rat \<times> rat \<times> rat \<times> rat"

definition new_Matrix :: Matrix where
  "new_Matrix = (1, 0, 0, 1, 0, 0)"

record CommandState =
  backingCommand :: Command
  commands :: "Command list"
  mutations :: "Mutation list"
  transforms :: "Matrix list"
  calculator :: Calculator
  minT :: rat
  maxT :: rat

text \<open>The constructor with its default arguments; \<^verbatim>\<open>newCalculator\<close> is absent and
  taken as a parameter.\<close>

definition new_CommandState :: "(Command \<Rightarrow> Calculator) \<Rightarrow> Command \<Rightarrow> CommandState" where
  "new_CommandState newCalculator backing =
     \<lparr>backingCommand = backing,
      commands = [backing],
      mutations = [\<lparr>mut_id = getId backing, mut_t = 1,
                    mut_svgChar = Some (getSvgChar backing)\<rparr>],
      transforms = [new_Matrix],
      calculator = newCalculator backing,
      minT = 0,
      maxT = 1\<rparr>"

definition getCommands :: "CommandState \<Rightarrow> Command list" where
  "getCommands cs = commands cs"

subsection \<open>lodash's sorted index\<close>

text \<open>
  \<^verbatim>\<open>_.sortedIndex\<close> and \<^verbatim>\<open>_.sortedIndexBy\<close> (library code): a binary search for the
  lowest index at which the value keeps the array sorted, the middle being
  \<^verbatim>\<open>(low + high) >>> 1\<close>.
\<close>

function sortedIndexLoop :: "rat list \<Rightarrow> rat \<Rightarrow> nat \<Rightarrow> nat \<Rightarrow> nat" where
  "sortedIndexLoop array v low high =
     (if low < high
      then (let mid = (low + high) div 2
            in if array ! mid < v
               then sortedIndexLoop array v (mid + 1) high
               else sortedIndexLoop array v low mid)
      else high)"
  by pat_completeness auto
termination
  by (relation "measure (\<lambda>(array, v, low, high). high - low)") auto

declare sortedIndexLoop.simps [simp del]

definition sortedIndex :: "rat list \<Rightarrow> rat \<Rightarrow> nat" where
  "sortedIndex array v = sortedIndexLoop array v 0 (length array)"

definition sortedIndexBy :: "Mutation list \<Rightarrow> Mutation \<Rightarrow> nat" where
  "sortedIndexBy array mutation = sortedIndex (map mut_t array) (mut_t mutation)"

text \<open>\<^verbatim>\<open>array.splice(idx, 0, x)\<close> for an index within the array.\<close>

definition splice_insert :: "nat \<Rightarrow> 'a \<Rightarrow> 'a list \<Rightarrow> 'a list" where
  "splice_insert idx x xs = take idx xs @ [x] @ drop idx xs"

text \<open>Modelled from the spec: \<^verbatim>\<open>MathUtil.lerp\<close> (absent) interpolates linearly between
  its first two arguments, as \<^verbatim>\<open>a + (b - a) * t\<close> in double arithmetic.\<close>

definition lerp :: "rat \<Rightarrow> rat \<Rightarrow> rat \<Rightarrow> rat" where
  "lerp a b s = dadd a (dmul (dsub b a) s)"

text \<open>\<^verbatim>\<open>_.uniqueId()\<close>: increments the global counter and returns it.\<close>

definition uniqueId :: "nat \<Rightarrow> nat \<times> nat" where
  "uniqueId idCounter = (idCounter + 1, idCounter + 1)"

text \<open>A JavaScript array read: \<^verbatim>\<open>undefined\<close> out of range.\<close>

definition nth_opt :: "'a list \<Rightarrow> nat \<Rightarrow> 'a option" where
  "nth_opt xs i = (if i < length xs then Some (xs ! i) else None)"

section \<open>CommandState\<close>



subsection \<open>CommandStateMutator\<close>

record CommandStateMutator =
  m_backingCommand :: Command
  m_mutations :: "Mutation list"
  m_transforms :: "Matrix list"
  m_calculator :: Calculator
  m_minT :: rat
  m_maxT :: rat

definition mutate :: "CommandState \<Rightarrow> CommandStateMutator" where
  "mutate cs =
     \<lparr>m_backingCommand = backingCommand cs,
      m_mutations = mutations cs,
      m_transforms = transforms cs,
      m_calculator = calculator cs,
      m_minT = minT cs,
      m_maxT = maxT cs\<rparr>"

text \<open>\<^verbatim>\<open>forkLeft\<close> and \<^verbatim>\<open>forkRight\<close> read \<^verbatim>\<open>this.mutations[splitIdx].t\<close>, a
  \<^verbatim>\<open>TypeError\<close> out of range.\<close>

definition forkLeft :: "nat \<Rightarrow> CommandStateMutator \<Rightarrow> error + CommandStateMutator" where
  "forkLeft splitIdx m =
     (case nth_opt (m_mutations m) splitIdx of
        None \<Rightarrow> Inl TypeError
      | Some mutation \<Rightarrow>
          Inr (m\<lparr>m_maxT := mut_t mutation,
                 m_mutations := take (splitIdx + 1) (m_mutations m)\<rparr>))"

definition forkRight :: "nat \<Rightarrow> CommandStateMutator \<Rightarrow> error + CommandStateMutator" where
  "forkRight splitIdx m =
     (case nth_opt (m_mutations m) splitIdx of
        None \<Rightarrow> Inl TypeError
      | Some mutation \<Rightarrow>
          Inr (m\<lparr>m_minT := mut_t mutation,
                 m_mutations := drop (splitIdx + 1) (m_mutations m)\<rparr>))"

text \<open>
  \<^verbatim>\<open>merge\<close>. The set of ids is taken once, before the loop. \<^verbatim>\<open>console.warn\<close> is
  modelled by a log: the list of the ids warned about, in order.
\<close>

fun merge_loop :: "nat set \<Rightarrow> Mutation list \<Rightarrow> Mutation list \<Rightarrow> nat list
                   \<Rightarrow> Mutation list \<times> nat list" where
  "merge_loop mutationIds [] muts warnings = (muts, warnings)"
| "merge_loop mutationIds (mut # otherMutations) muts warnings =
     (let warnings' = (if mut_id mut \<in> mutationIds then warnings @ [mut_id mut] else warnings);
          insertionIdx = sortedIndexBy muts mut
      in merge_loop mutationIds otherMutations (splice_insert insertionIdx mut muts) warnings')"

definition merge :: "CommandState \<Rightarrow> CommandStateMutator \<Rightarrow> CommandStateMutator \<times> nat list" where
  "merge cs m =
     (let minT' = min (m_minT m) (minT cs);
          maxT' = max (m_maxT m) (maxT cs);
          mutationIds = set (map mut_id (m_mutations m));
          (muts, warnings) = merge_loop mutationIds (mutations cs) (m_mutations m) []
      in (m\<lparr>m_minT := minT', m_maxT := maxT', m_mutations := muts\<rparr>, warnings))"

text \<open>
  The private \<^verbatim>\<open>split\<close>. The kind of a new mutation is read from the kinds as they were
  before the loop, at the sorted index of its \<open>t\<close> among the old \<open>t\<close> values; past the
  end that read is \<^verbatim>\<open>undefined\<close>, and the mutation is inserted with that kind. The
  second loop turns every closepath mutation but the last into a line.
\<close>

fun split_loop :: "rat list \<Rightarrow> SvgChar option list \<Rightarrow> rat list \<Rightarrow> Mutation list \<Rightarrow> nat
                   \<Rightarrow> Mutation list \<times> nat" where
  "split_loop currSplits currSvgChars [] muts idCounter = (muts, idCounter)"
| "split_loop currSplits currSvgChars (s # ts) muts idCounter =
     (let (ident, idCounter') = uniqueId idCounter;
          svgChar = (case nth_opt currSvgChars (sortedIndex currSplits s) of
                       None \<Rightarrow> None
                     | Some k \<Rightarrow> k);
          mutation = \<lparr>mut_id = ident, mut_t = s, mut_svgChar = svgChar\<rparr>;
          insertionIdx = sortedIndexBy muts mutation
      in split_loop currSplits currSvgChars ts
           (splice_insert insertionIdx mutation muts) idCounter')"

definition forceLine :: "Mutation \<Rightarrow> Mutation" where
  "forceLine mutation =
     (if mut_svgChar mutation = Some SvgZ then mutation\<lparr>mut_svgChar := Some SvgL\<rparr>
      else mutation)"

definition forceLines :: "Mutation list \<Rightarrow> Mutation list" where
  "forceLines muts = (if muts = [] then [] else map forceLine (butlast muts) @ [last muts])"

definition split_ts :: "rat list \<Rightarrow> CommandStateMutator \<Rightarrow> nat
                        \<Rightarrow> error + (CommandStateMutator \<times> nat)" where
  "split_ts ts m idCounter =
     (if ts = [] \<or> getSvgChar (m_backingCommand m) = SvgM then Inr (m, idCounter)
      else (let currSplits = map mut_t (m_mutations m);
                currSvgChars = map mut_svgChar (m_mutations m)
            in case split_loop currSplits currSvgChars ts (m_mutations m) idCounter of
                 (muts, idCounter') \<Rightarrow>
                   Inr (m\<lparr>m_mutations := forceLines muts\<rparr>, idCounter')))"

text \<open>
  \<^verbatim>\<open>splitAtIndex\<close>. When one of the two boundaries is \<^verbatim>\<open>undefined\<close> the interpolated
  values are \<^verbatim>\<open>NaN\<close>; \<^verbatim>\<open>split\<close> still returns \<^verbatim>\<open>this\<close> under its guard (no value or a
  Move backing command) and would otherwise store them (\<open>UndefinedValue\<close>).
\<close>

definition splitAtIndex :: "nat \<Rightarrow> rat list \<Rightarrow> CommandStateMutator \<Rightarrow> nat
                            \<Rightarrow> error + (CommandStateMutator \<times> nat)" where
  "splitAtIndex splitIdx ts m idCounter =
     (let tempSplits = m_minT m # map mut_t (m_mutations m)
      in case (nth_opt tempSplits splitIdx, nth_opt tempSplits (splitIdx + 1)) of
           (Some startSplit, Some endSplit) \<Rightarrow>
             split_ts (map (\<lambda>s. lerp startSplit endSplit s) ts) m idCounter
         | _ \<Rightarrow>
             (if ts = [] \<or> getSvgChar (m_backingCommand m) = SvgM then Inr (m, idCounter)
              else Inl UndefinedValue))"

definition splitInHalfAtIndex :: "nat \<Rightarrow> CommandStateMutator \<Rightarrow> nat
                                  \<Rightarrow> error + (CommandStateMutator \<times> nat)" where
  "splitInHalfAtIndex splitIdx m idCounter =
     (let tempSplits = m_minT m # map mut_t (m_mutations m)
      in case (nth_opt tempSplits splitIdx, nth_opt tempSplits (splitIdx + 1)) of
           (Some startSplit, Some endSplit) \<Rightarrow>
             (let distance = lerp startSplit endSplit (1 / 2)
              in split_ts [findTimeByDistance (m_calculator m) distance] m idCounter)
         | _ \<Rightarrow>
             (if getSvgChar (m_backingCommand m) = SvgM then Inr (m, idCounter)
              else Inl UndefinedValue))"

text \<open>\<^verbatim>\<open>unsplitAtIndex\<close>: \<^verbatim>\<open>splice(splitIdx, 1)\<close>, which removes nothing past the end.\<close>

definition unsplitAtIndex :: "nat \<Rightarrow> CommandStateMutator \<Rightarrow> CommandStateMutator" where
  "unsplitAtIndex splitIdx m =
     m\<lparr>m_mutations := take splitIdx (m_mutations m) @ drop (splitIdx + 1) (m_mutations m)\<rparr>"

text \<open>\<^verbatim>\<open>convertAtIndex\<close>: out of range the assignment would append an object with
  neither id nor \<open>t\<close> (\<open>UndefinedValue\<close>).\<close>

definition convertAtIndex :: "nat \<Rightarrow> SvgChar \<Rightarrow> CommandStateMutator \<Rightarrow> error + CommandStateMutator" where
  "convertAtIndex splitIdx svgChar m =
     (case nth_opt (m_mutations m) splitIdx of
        None \<Rightarrow> Inl UndefinedValue
      | Some mutation \<Rightarrow>
          Inr (m\<lparr>m_mutations :=
                   (m_mutations m)[splitIdx := mutation\<lparr>mut_svgChar := Some svgChar\<rparr>]\<rparr>))"

definition unconvertSubpath :: "CommandStateMutator \<Rightarrow> CommandStateMutator" where
  "unconvertSubpath m =
     (let backingSvgChar = getSvgChar (m_backingCommand m);
          n = length (m_mutations m)
      in m\<lparr>m_mutations :=
             map (\<lambda>(mutation, i).
                    mutation\<lparr>mut_svgChar :=
                      Some (if backingSvgChar = SvgZ \<and> int i \<noteq> int n - 1 then SvgL
                            else backingSvgChar)\<rparr>)
                 (zip (m_mutations m) [0 ..< n])\<rparr>)"

text \<open>\<^verbatim>\<open>revert\<close>: \<^verbatim>\<open>_.last(this.mutations).id\<close> is a \<^verbatim>\<open>TypeError\<close> on an empty list.\<close>

definition revert :: "(Command \<Rightarrow> Calculator) \<Rightarrow> CommandStateMutator \<Rightarrow> error + CommandStateMutator" where
  "revert newCalculator m =
     (if m_mutations m = [] then Inl TypeError
      else Inr (m\<lparr>m_mutations := [\<lparr>mut_id = mut_id (last (m_mutations m)),
                                     mut_t = m_maxT m,
                                     mut_svgChar = Some (getSvgChar (m_backingCommand m))\<rparr>],
                  m_transforms := [new_Matrix],
                  m_calculator := newCalculator (m_backingCommand m)\<rparr>))"

text \<open>
  \<^verbatim>\<open>build\<close>: one command per mutation, cut out of the calculator between the
  previous and the current \<open>t\<close>, converted to the mutation's kind, given the mutation's
  id, and toggled to a split point unless it is the last one.
\<close>

fun build_loop :: "Calculator \<Rightarrow> rat \<Rightarrow> Mutation list \<Rightarrow> error + Command list" where
  "build_loop calc prevT [] = Inr []"
| "build_loop calc prevT (mutation # rest) =
     (let currT = mut_t mutation
      in case toCommand (convert (split calc prevT currT) (mut_svgChar mutation)) of
           Inl e \<Rightarrow> Inl e
         | Inr cmd \<Rightarrow>
             (let cmd1 = cmd\<lparr>getId := mut_id mutation\<rparr>;
                  cmd2 = (if rest \<noteq> [] then cmd1\<lparr>isSplitPoint := \<not> isSplitPoint cmd1\<rparr> else cmd1)
              in case build_loop calc currT rest of
                   Inl e \<Rightarrow> Inl e
                 | Inr builtCommands \<Rightarrow> Inr (cmd2 # builtCommands)))"

definition build :: "CommandStateMutator \<Rightarrow> error + CommandState" where
  "build m =
     (case build_loop (m_calculator m) (m_minT m) (m_mutations m) of
        Inl e \<Rightarrow> Inl e
      | Inr builtCommands \<Rightarrow>
          Inr \<lparr>backingCommand = m_backingCommand m,
               commands = builtCommands,
               mutations = m_mutations m,
               transforms = m_transforms m,
               calculator = m_calculator m,
               minT = m_minT m,
               maxT = m_maxT m\<rparr>)"

definition fork :: "CommandState \<Rightarrow> nat \<Rightarrow> error + (CommandState \<times> CommandState)" where
  "fork cs splitIdx =
     andThen (andThen (forkLeft splitIdx (mutate cs)) build) (\<lambda>left.
     andThen (andThen (forkRight splitIdx (mutate cs)) build) (\<lambda>right.
     Inr (left, right)))"

subsection \<open>Comparing built commands\<close>


definition geometry :: "Command \<Rightarrow> SvgChar \<times> Point option list \<times> bool" where
  "geometry cmd = (getSvgChar cmd, getPoints cmd, isSplitPoint cmd)"


subsection \<open>Reachable command states\<close>

text \<open>
  The command states obtained from a fresh one by the operations of the mutator, each
  followed by \<^verbatim>\<open>build()\<close>, with arguments as their callers supply them: a split index
  within the mutation list, split values whose interpolation between the two boundaries
  stays within \<open>[minT, maxT]\<close> (as it does for values in \<open>[0, 1]\<close>, except that rounding
  may carry it past the upper end of a state cut by \<^verbatim>\<open>forkLeft\<close>), an unsplit only of a
  mutation that is not the last (only those commands are split points), a calculator
  whose \<^verbatim>\<open>findTimeByDistance\<close> stays within the state's range, and the right half of a
  fork only when it holds a mutation (\<^verbatim>\<open>splitStrokedSubPath\<close> drops an empty right half).

  The flag \<open>wasCut\<close> records the history of the state: it is set when the state is the left
  half of a fork, kept by every operation on one state, and a merged state has it only
  when both merged states have it.
\<close>

inductive reachable :: "(Command \<Rightarrow> Calculator) \<Rightarrow> bool \<Rightarrow> CommandState \<Rightarrow> bool"
  for newCalculator :: "Command \<Rightarrow> Calculator" where
  reach_new:
    "reachable newCalculator False (new_CommandState newCalculator backing)"
| reach_splitAtIndex:
    "\<lbrakk>reachable newCalculator wasCut cs; splitIdx < length (mutations cs);
      \<forall>s\<in>set ts.
         minT cs \<le> lerp ((minT cs # map mut_t (mutations cs)) ! splitIdx)
                         ((minT cs # map mut_t (mutations cs)) ! (splitIdx + 1)) s
       \<and> lerp ((minT cs # map mut_t (mutations cs)) ! splitIdx)
              ((minT cs # map mut_t (mutations cs)) ! (splitIdx + 1)) s \<le> maxT cs;
      splitAtIndex splitIdx ts (mutate cs) idCounter = Inr (m, idCounter');
      build m = Inr cs'\<rbrakk> \<Longrightarrow> reachable newCalculator wasCut cs'"
| reach_splitInHalfAtIndex:
    "\<lbrakk>reachable newCalculator wasCut cs; splitIdx < length (mutations cs);
      s = findTimeByDistance (calculator cs)
            (lerp ((minT cs # map mut_t (mutations cs)) ! splitIdx)
                  ((minT cs # map mut_t (mutations cs)) ! (splitIdx + 1)) (1 / 2));
      minT cs \<le> s; s \<le> maxT cs;
      splitInHalfAtIndex splitIdx (mutate cs) idCounter = Inr (m, idCounter');
      build m = Inr cs'\<rbrakk> \<Longrightarrow> reachable newCalculator wasCut cs'"
| reach_unsplitAtIndex:
    "\<lbrakk>reachable newCalculator wasCut cs; splitIdx + 1 < length (mutations cs);
      build (unsplitAtIndex splitIdx (mutate cs)) = Inr cs'\<rbrakk>
     \<Longrightarrow> reachable newCalculator wasCut cs'"
| reach_convertAtIndex:
    "\<lbrakk>reachable newCalculator wasCut cs;
      convertAtIndex splitIdx svgChar (mutate cs) = Inr m;
      build m = Inr cs'\<rbrakk> \<Longrightarrow> reachable newCalculator wasCut cs'"
| reach_unconvertSubpath:
    "\<lbrakk>reachable newCalculator wasCut cs;
      build (unconvertSubpath (mutate cs)) = Inr cs'\<rbrakk> \<Longrightarrow> reachable newCalculator wasCut cs'"
| reach_fork_left:
    "\<lbrakk>reachable newCalculator wasCut cs; fork cs splitIdx = Inr (left, right)\<rbrakk>
     \<Longrightarrow> reachable newCalculator True left"
| reach_fork_right:
    "\<lbrakk>reachable newCalculator wasCut cs; fork cs splitIdx = Inr (left, right);
      mutations right \<noteq> []\<rbrakk> \<Longrightarrow> reachable newCalculator wasCut right"
| reach_merge:
    "\<lbrakk>reachable newCalculator wasCut a; reachable newCalculator wasCut' b;
      build (fst (merge b (mutate a))) = Inr cs'\<rbrakk>
     \<Longrightarrow> reachable newCalculator (wasCut \<and> wasCut') cs'"
| reach_revert:
    "\<lbrakk>reachable newCalculator wasCut cs; revert newCalculator (mutate cs) = Inr m;
      build m = Inr cs'\<rbrakk> \<Longrightarrow> reachable newCalculator wasCut cs'"

text \<open>The invariant of the mutation list: not empty, sorted by \<open>t\<close>, ending at \<open>maxT\<close>,
  never below \<open>minT\<close>, within \<open>[0, 1]\<close>.\<close>

definition mutations_ok :: "rat \<Rightarrow> rat \<Rightarrow> rat list \<Rightarrow> bool" where
  "mutations_ok lo hi ts \<longleftrightarrow>
     ts \<noteq> [] \<and> sorted ts \<and> last ts = hi \<and> (\<forall>x\<in>set ts. lo \<le> x) \<and> 0 \<le> lo \<and> hi \<le> 1"

section \<open>Example values\<close>

text \<open>Concrete commands and states, used to evaluate the functions above.\<close>

definition origin :: Point where
  "origin = (0, 0)"

definition noDistance :: "Point \<Rightarrow> Point \<Rightarrow> rat" where
  "noDistance p q = 0"

text \<open>A stand-in for the calculator of a Move command (the class is absent): every
  method answers with the command it was made from.\<close>

primcorec constCalculator :: "Command \<Rightarrow> Calculator" where
  "project (constCalculator cmd) = (\<lambda>p. None)"
| "split (constCalculator cmd) = (\<lambda>t1 t2. constCalculator cmd)"
| "convert (constCalculator cmd) = (\<lambda>svgChar. constCalculator cmd)"
| "findTimeByDistance (constCalculator cmd) = (\<lambda>d. d)"
| "toCommand (constCalculator cmd) = Inr cmd"

declare constCalculator.code [code del]

text \<open>A calculator factory for the examples: the stand-in for a Move, the point
  calculator at the command's kind for the degenerate commands (all points equal) used
  below.\<close>

definition pointCalculatorOf :: "Command \<Rightarrow> Calculator" where
  "pointCalculatorOf cmd =
     (if getSvgChar cmd = SvgM then constCalculator cmd
      else PointCalculator noDistance (Some (getSvgChar cmd)) origin)"

definition moveCommand :: Command where
  "moveCommand = \<lparr>getSvgChar = SvgM, getPoints = [None, Some origin], getId = 1,
                   isSplitPoint = False\<rparr>"

definition lineCommand :: Command where
  "lineCommand = \<lparr>getSvgChar = SvgL, getPoints = [Some origin, Some origin], getId = 2,
                   isSplitPoint = False\<rparr>"

definition closeCommand :: Command where
  "closeCommand = \<lparr>getSvgChar = SvgZ, getPoints = [Some origin, Some origin], getId = 3,
                    isSplitPoint = False\<rparr>"

definition moveState :: CommandState where
  "moveState = new_CommandState pointCalculatorOf moveCommand"

definition lineState :: CommandState where
  "lineState = new_CommandState pointCalculatorOf lineCommand"

definition closeState :: CommandState where
  "closeState = new_CommandState pointCalculatorOf closeCommand"

text \<open>A line-backed state with mutations at the doubles \<^verbatim>\<open>0.3\<close>, \<^verbatim>\<open>0.7\<close> and \<open>1\<close>.\<close>

definition splitLineState :: CommandState where
  "splitLineState =
     lineState\<lparr>mutations := [\<lparr>mut_id = 10, mut_t = toDouble (3 / 10), mut_svgChar = Some SvgL\<rparr>,
                            \<lparr>mut_id = 11, mut_t = toDouble (7 / 10), mut_svgChar = Some SvgL\<rparr>,
                            \<lparr>mut_id = 2, mut_t = 1, mut_svgChar = Some SvgL\<rparr>]\<rparr>"

text \<open>The two halves of \<open>splitLineState\<close> as \<^verbatim>\<open>fork(0)\<close> builds them.\<close>

definition leftLineState :: CommandState where
  "leftLineState =
     \<lparr>backingCommand = lineCommand,
      commands = [\<lparr>getSvgChar = SvgL, getPoints = [Some origin, Some origin], getId = 10,
                    isSplitPoint = False\<rparr>],
      mutations = [\<lparr>mut_id = 10, mut_t = toDouble (3 / 10), mut_svgChar = Some SvgL\<rparr>],
      transforms = [new_Matrix],
      calculator = pointCalculatorOf lineCommand,
      minT = 0,
      maxT = toDouble (3 / 10)\<rparr>"

definition rightLineState :: CommandState where
  "rightLineState =
     \<lparr>backingCommand = lineCommand,
      commands = [\<lparr>getSvgChar = SvgL, getPoints = [Some origin, Some origin], getId = 11,
                    isSplitPoint = True\<rparr>,
                  \<lparr>getSvgChar = SvgL, getPoints = [Some origin, Some origin], getId = 2,
                    isSplitPoint = False\<rparr>],
      mutations = [\<lparr>mut_id = 11, mut_t = toDouble (7 / 10), mut_svgChar = Some SvgL\<rparr>,
                   \<lparr>mut_id = 2, mut_t = 1, mut_svgChar = Some SvgL\<rparr>],
      transforms = [new_Matrix],
      calculator = pointCalculatorOf lineCommand,
      minT = toDouble (3 / 10),
      maxT = 1\<rparr>"

text \<open>A closepath-backed state split once at its middle (id counter at 100), its left
  half after \<^verbatim>\<open>fork(0)\<close>, and the split state with its first part converted to a
  cubic.\<close>

definition closeSplitState :: CommandState where
  "closeSplitState =
     \<lparr>backingCommand = closeCommand,
      commands = [\<lparr>getSvgChar = SvgL, getPoints = [Some origin, Some origin], getId = 101,
                    isSplitPoint = True\<rparr>,
                  \<lparr>getSvgChar = SvgZ, getPoints = [Some origin, Some origin], getId = 3,
                    isSplitPoint = False\<rparr>],
      mutations = [\<lparr>mut_id = 101, mut_t = 1 / 2, mut_svgChar = Some SvgL\<rparr>,
                   \<lparr>mut_id = 3, mut_t = 1, mut_svgChar = Some SvgZ\<rparr>],
      transforms = [new_Matrix],
      calculator = pointCalculatorOf closeCommand,
      minT = 0,
      maxT = 1\<rparr>"

definition closeLeftState :: CommandState where
  "closeLeftState =
     \<lparr>backingCommand = closeCommand,
      commands = [\<lparr>getSvgChar = SvgL, getPoints = [Some origin, Some origin], getId = 101,
                    isSplitPoint = False\<rparr>],
      mutations = [\<lparr>mut_id = 101, mut_t = 1 / 2, mut_svgChar = Some SvgL\<rparr>],
      transforms = [new_Matrix],
      calculator = pointCalculatorOf closeCommand,
      minT = 0,
      maxT = 1 / 2\<rparr>"

definition closeRightState :: CommandState where
  "closeRightState =
     \<lparr>backingCommand = closeCommand,
      commands = [\<lparr>getSvgChar = SvgZ, getPoints = [Some origin, Some origin], getId = 3,
                    isSplitPoint = False\<rparr>],
      mutations = [\<lparr>mut_id = 3, mut_t = 1, mut_svgChar = Some SvgZ\<rparr>],
      transforms = [new_Matrix],
      calculator = pointCalculatorOf closeCommand,
      minT = 1 / 2,
      maxT = 1\<rparr>"

definition closeConvertedState :: CommandState where
  "closeConvertedState =
     \<lparr>backingCommand = closeCommand,
      commands = [\<lparr>getSvgChar = SvgC,
                    getPoints = [Some origin, Some origin, Some origin, Some origin],
                    getId = 101, isSplitPoint = True\<rparr>,
                  \<lparr>getSvgChar = SvgZ, getPoints = [Some origin, Some origin], getId = 3,
                    isSplitPoint = False\<rparr>],
      mutations = [\<lparr>mut_id = 101, mut_t = 1 / 2, mut_svgChar = Some SvgC\<rparr>,
                   \<lparr>mut_id = 3, mut_t = 1, mut_svgChar = Some SvgZ\<rparr>],
      transforms = [new_Matrix],
      calculator = pointCalculatorOf closeCommand,
      minT = 0,
      maxT = 1\<rparr>"

text \<open>The line-backed state split once at its middle (id counter at 100).\<close>

definition lineSplitState :: CommandState where
  "lineSplitState =
     \<lparr>backingCommand = lineCommand,
      commands = [\<lparr>getSvgChar = SvgL, getPoints = [Some origin, Some origin], getId = 101,
                    isSplitPoint = True\<rparr>,
                  \<lparr>getSvgChar = SvgL, getPoints = [Some origin, Some origin], getId = 2,
                    isSplitPoint = False\<rparr>],
      mutations = [\<lparr>mut_id = 101, mut_t = 1 / 2, mut_svgChar = Some SvgL\<rparr>,
                   \<lparr>mut_id = 2, mut_t = 1, mut_svgChar = Some SvgL\<rparr>],
      transforms = [new_Matrix],
      calculator = pointCalculatorOf lineCommand,
      minT = 0,
      maxT = 1\<rparr>"

text \<open>The two halves of that state, forked at its first command.\<close>

definition lineLeftState :: CommandState where
  "lineLeftState =
     \<lparr>backingCommand = lineCommand,
      commands = [\<lparr>getSvgChar = SvgL, getPoints = [Some origin, Some origin], getId = 101,
                    isSplitPoint = False\<rparr>],
      mutations = [\<lparr>mut_id = 101, mut_t = 1 / 2, mut_svgChar = Some SvgL\<rparr>],
      transforms = [new_Matrix],
      calculator = pointCalculatorOf lineCommand,
      minT = 0,
      maxT = 1 / 2\<rparr>"

definition lineRightState :: CommandState where
  "lineRightState =
     \<lparr>backingCommand = lineCommand,
      commands = [\<lparr>getSvgChar = SvgL, getPoints = [Some origin, Some origin], getId = 2,
                    isSplitPoint = False\<rparr>],
      mutations = [\<lparr>mut_id = 2, mut_t = 1, mut_svgChar = Some SvgL\<rparr>],
      transforms = [new_Matrix],
      calculator = pointCalculatorOf lineCommand,
      minT = 1 / 2,
      maxT = 1\<rparr>"



definition closeTwiceState :: CommandState where
  "closeTwiceState =
     \<lparr>backingCommand = closeCommand,
      commands = [\<lparr>getSvgChar = SvgZ, getPoints = [Some origin, Some origin], getId = 101,
                    isSplitPoint = True\<rparr>,
                  \<lparr>getSvgChar = SvgZ, getPoints = [Some origin, Some origin], getId = 3,
                    isSplitPoint = False\<rparr>],
      mutations = [\<lparr>mut_id = 101, mut_t = 1 / 2, mut_svgChar = Some SvgZ\<rparr>,
                   \<lparr>mut_id = 3, mut_t = 1, mut_svgChar = Some SvgZ\<rparr>],
      transforms = [new_Matrix],
      calculator = pointCalculatorOf closeCommand,
      minT = 0,
      maxT = 1\<rparr>"

section \<open>SubPathState and PathMutator\<close>

text \<open>
  Modelled from the spec: the file of \<^verbatim>\<open>SubPathState\<close> is absent. A node owns its command
  states, the reversal flag, the shift offset, a stable id and the list of sub-path
  states it has been split into; it is a leaf exactly when that list is empty
  (\<^verbatim>\<open>isSplit()\<close>). Its builder has one setter per field, and \<^verbatim>\<open>reverse()\<close> toggles the
  flag.
\<close>

datatype SubPathState = SubPathState
  (commandStates: "CommandState list")
  (isReversed: bool)
  (shiftOffset: int)
  (sps_id: nat)
  (splitSubPaths: "SubPathState list")

definition isSplit :: "SubPathState \<Rightarrow> bool" where
  "isSplit node \<longleftrightarrow> splitSubPaths node \<noteq> []"

definition setCommandStates :: "CommandState list \<Rightarrow> SubPathState \<Rightarrow> SubPathState" where
  "setCommandStates css node =
     SubPathState css (isReversed node) (shiftOffset node) (sps_id node) (splitSubPaths node)"

definition setCommandState :: "CommandState \<Rightarrow> nat \<Rightarrow> SubPathState \<Rightarrow> SubPathState" where
  "setCommandState cs cmIdx node = setCommandStates ((commandStates node)[cmIdx := cs]) node"

definition sps_reverse :: "SubPathState \<Rightarrow> SubPathState" where
  "sps_reverse node =
     SubPathState (commandStates node) (\<not> isReversed node) (shiftOffset node) (sps_id node)
       (splitSubPaths node)"

definition setShiftOffset :: "int \<Rightarrow> SubPathState \<Rightarrow> SubPathState" where
  "setShiftOffset offset node =
     SubPathState (commandStates node) (isReversed node) offset (sps_id node) (splitSubPaths node)"

definition setId :: "nat \<Rightarrow> SubPathState \<Rightarrow> SubPathState" where
  "setId ident node =
     SubPathState (commandStates node) (isReversed node) (shiftOffset node) ident
       (splitSubPaths node)"

definition setSplitSubPaths :: "SubPathState list \<Rightarrow> SubPathState \<Rightarrow> SubPathState" where
  "setSplitSubPaths subs node =
     SubPathState (commandStates node) (isReversed node) (shiftOffset node) (sps_id node) subs"

text \<open>Modelled from the spec: \<^verbatim>\<open>flattenSubPathStates\<close> lists the leaves of the forest in
  document order, and \<^verbatim>\<open>findSubPathState\<close> is the leaf at an index of that list
  (\<^verbatim>\<open>undefined\<close> out of range).\<close>

fun flattenSubPathState :: "SubPathState \<Rightarrow> SubPathState list" where
  "flattenSubPathState (SubPathState css reversed offset ident subs) =
     (if subs = [] then [SubPathState css reversed offset ident subs]
      else concat (map flattenSubPathState subs))"

definition flattenSubPathStates :: "SubPathState list \<Rightarrow> SubPathState list" where
  "flattenSubPathStates nodes = concat (map flattenSubPathState nodes)"

definition findSubPathState :: "SubPathState list \<Rightarrow> nat \<Rightarrow> SubPathState option" where
  "findSubPathState nodes cmsIdx = nth_opt (flattenSubPathStates nodes) cmsIdx"

record PathMutator =
  subPathStateMap :: "SubPathState list"
  subPathOrdering :: "nat list"
  numCollapsingSubPaths :: nat

text \<open>
  \<^verbatim>\<open>setSubPathState\<close>: the closure \<^verbatim>\<open>setStateFn\<close> walks the forest with one counter of
  the leaves met so far and puts \<open>state\<close> in place of leaf number \<open>cmsIdx\<close>; the counter
  is threaded through the two functions.
\<close>

fun setStateFn :: "SubPathState \<Rightarrow> nat \<Rightarrow> SubPathState \<Rightarrow> nat \<Rightarrow> SubPathState \<times> nat"
  and setStateFn_list :: "SubPathState \<Rightarrow> nat \<Rightarrow> SubPathState list \<Rightarrow> nat
                           \<Rightarrow> SubPathState list \<times> nat" where
  "setStateFn state cmsIdx (SubPathState css reversed offset ident subs) counter =
     (if subs = []
      then (if counter = cmsIdx then state else SubPathState css reversed offset ident subs, counter + 1)
      else (case setStateFn_list state cmsIdx subs counter of
              (subs', counter') \<Rightarrow> (SubPathState css reversed offset ident subs', counter')))"
| "setStateFn_list state cmsIdx [] counter = ([], counter)"
| "setStateFn_list state cmsIdx (node # nodes) counter =
     (case setStateFn state cmsIdx node counter of
        (node', counter1) \<Rightarrow>
          (case setStateFn_list state cmsIdx nodes counter1 of
             (nodes', counter2) \<Rightarrow> (node' # nodes', counter2)))"

definition setSubPathState :: "SubPathState \<Rightarrow> nat \<Rightarrow> PathMutator \<Rightarrow> PathMutator" where
  "setSubPathState state cmsIdx pm =
     pm\<lparr>subPathStateMap := fst (setStateFn_list state cmsIdx (subPathStateMap pm) 0)\<rparr>"

text \<open>The lookup every operation starts with: \<^verbatim>\<open>subPathOrdering[subIdx]\<close>, then the leaf
  at that index; a field access on \<^verbatim>\<open>undefined\<close> is a \<^verbatim>\<open>TypeError\<close>.\<close>

definition lookupSubPath :: "PathMutator \<Rightarrow> nat \<Rightarrow> error + (nat \<times> SubPathState)" where
  "lookupSubPath pm subIdx =
     (case nth_opt (subPathOrdering pm) subIdx of
        None \<Rightarrow> Inl TypeError
      | Some cmsIdx \<Rightarrow>
          (case findSubPathState (subPathStateMap pm) cmsIdx of
             None \<Rightarrow> Inl TypeError
           | Some sps \<Rightarrow> Inr (cmsIdx, sps)))"

definition numCommandsInSubPath :: "SubPathState \<Rightarrow> nat" where
  "numCommandsInSubPath sps = sum_list (map (\<lambda>cm. length (getCommands cm)) (commandStates sps))"

definition reverseSubPath :: "nat \<Rightarrow> PathMutator \<Rightarrow> error + PathMutator" where
  "reverseSubPath subIdx pm =
     (case lookupSubPath pm subIdx of
        Inl e \<Rightarrow> Inl e
      | Inr (cmsIdx, sps) \<Rightarrow> Inr (setSubPathState (sps_reverse sps) cmsIdx pm))"

text \<open>JavaScript's \<^verbatim>\<open>%\<close> on integers (the sign of the dividend), and, modelled from the
  spec, \<^verbatim>\<open>MathUtil.floorMod\<close> (absent): the floor modulus.\<close>

definition js_rem :: "int \<Rightarrow> int \<Rightarrow> int" where
  "js_rem a b = sgn a * (\<bar>a\<bar> mod \<bar>b\<bar>)"

definition floorMod :: "int \<Rightarrow> int \<Rightarrow> int" where
  "floorMod num maxNum = num mod maxNum"

definition shift :: "nat \<Rightarrow> (int \<Rightarrow> int \<Rightarrow> int) \<Rightarrow> PathMutator \<Rightarrow> error + PathMutator" where
  "shift subIdx calcOffsetFn pm =
     (case lookupSubPath pm subIdx of
        Inl e \<Rightarrow> Inl e
      | Inr (cmsIdx, sps) \<Rightarrow>
          (let n = numCommandsInSubPath sps
           in if n \<le> 1 then Inr pm
              else Inr (setSubPathState
                          (setShiftOffset (calcOffsetFn (shiftOffset sps) (int n)) sps)
                          cmsIdx pm)))"

definition shiftSubPathBack :: "nat \<Rightarrow> int \<Rightarrow> PathMutator \<Rightarrow> error + PathMutator" where
  "shiftSubPathBack subIdx numShifts pm =
     (case lookupSubPath pm subIdx of
        Inl e \<Rightarrow> Inl e
      | Inr (cmsIdx, sps) \<Rightarrow>
          (if isReversed sps
           then shift subIdx (\<lambda>offset n. js_rem (offset + numShifts) (n - 1)) pm
           else shift subIdx (\<lambda>offset n. floorMod (offset - numShifts) (n - 1)) pm))"

definition shiftSubPathForward :: "nat \<Rightarrow> int \<Rightarrow> PathMutator \<Rightarrow> error + PathMutator" where
  "shiftSubPathForward subIdx numShifts pm =
     (case lookupSubPath pm subIdx of
        Inl e \<Rightarrow> Inl e
      | Inr (cmsIdx, sps) \<Rightarrow>
          (if isReversed sps
           then shift subIdx (\<lambda>offset n. floorMod (offset - numShifts) (n - 1)) pm
           else shift subIdx (\<lambda>offset n. js_rem (offset + numShifts) (n - 1)) pm))"

text \<open>
  \<^verbatim>\<open>findCommandStateInfo\<close>: the visible command index is adjusted for reversal and for
  the shift offset, then the command states are scanned, adding up their command
  counts, until the owner of that command is found.
\<close>

fun findCommandStateLoop :: "CommandState list \<Rightarrow> int \<Rightarrow> int \<Rightarrow> nat
                              \<Rightarrow> (CommandState \<times> nat \<times> int) option" where
  "findCommandStateLoop [] cmdIdx counter cmIdx = None"
| "findCommandStateLoop (targetCm # rest) cmdIdx counter cmIdx =
     (if counter + int (length (getCommands targetCm)) > cmdIdx
      then Some (targetCm, cmIdx, cmdIdx - counter)
      else findCommandStateLoop rest cmdIdx (counter + int (length (getCommands targetCm)))
             (cmIdx + 1))"

definition findCommandStateInfo :: "nat \<Rightarrow> int \<Rightarrow> PathMutator
                                     \<Rightarrow> error + (CommandState \<times> nat \<times> nat \<times> int)" where
  "findCommandStateInfo subIdx cmdIdx pm =
     (case lookupSubPath pm subIdx of
        Inl e \<Rightarrow> Inl e
      | Inr (cmsIdx, sps) \<Rightarrow>
          (let n = int (numCommandsInSubPath sps);
               cmdIdx1 = (if cmdIdx \<noteq> 0 \<and> isReversed sps then n - cmdIdx else cmdIdx);
               cmdIdx2 = cmdIdx1 + shiftOffset sps;
               cmdIdx3 = (if cmdIdx2 \<ge> n then cmdIdx2 - (n - 1) else cmdIdx2)
           in case findCommandStateLoop (commandStates sps) cmdIdx3 0 0 of
                None \<Rightarrow> Inl ErrorRetrievingCommandMutation
              | Some (targetCm, cmIdx, splitIdx) \<Rightarrow> Inr (targetCm, cmsIdx, cmIdx, splitIdx)))"

definition getUpdatedShiftOffsetsAfterSplit :: "SubPathState \<Rightarrow> nat \<Rightarrow> nat \<Rightarrow> int" where
  "getUpdatedShiftOffsetsAfterSplit sps cmIdx numSplits =
     (if shiftOffset sps \<noteq> 0 \<and> int cmIdx \<le> shiftOffset sps
      then shiftOffset sps + int numSplits
      else shiftOffset sps)"

text \<open>A negative split index reads \<^verbatim>\<open>undefined\<close> from an array exactly as an index
  past its end does; it is handed on as the index \<open>n\<close>, which the caller chooses past
  the end.\<close>

definition toIndex :: "nat \<Rightarrow> int \<Rightarrow> nat" where
  "toIndex n i = (if i < 0 then n else nat i)"

definition splitCommand :: "nat \<Rightarrow> int \<Rightarrow> rat list \<Rightarrow> PathMutator \<Rightarrow> nat
                             \<Rightarrow> error + (PathMutator \<times> nat)" where
  "splitCommand subIdx cmdIdx ts pm idCounter =
     (if ts = [] then Inl MustSpecifyT
      else case findCommandStateInfo subIdx cmdIdx pm of
             Inl e \<Rightarrow> Inl e
           | Inr (targetCm, cmsIdx, cmIdx, splitIdx) \<Rightarrow>
               (case findSubPathState (subPathStateMap pm) cmsIdx of
                  None \<Rightarrow> Inl TypeError
                | Some sps \<Rightarrow>
                    (let offset = getUpdatedShiftOffsetsAfterSplit sps cmIdx (length ts)
                     in case splitAtIndex (toIndex (length (mutations targetCm) + 1) splitIdx) ts
                               (mutate targetCm) idCounter of
                          Inl e \<Rightarrow> Inl e
                        | Inr (m, idCounter') \<Rightarrow>
                            (case build m of
                               Inl e \<Rightarrow> Inl e
                             | Inr cs \<Rightarrow>
                                 Inr (setSubPathState
                                        (setCommandState cs cmIdx (setShiftOffset offset sps))
                                        cmsIdx pm,
                                      idCounter')))))"

definition splitCommandInHalf :: "nat \<Rightarrow> int \<Rightarrow> PathMutator \<Rightarrow> nat
                                   \<Rightarrow> error + (PathMutator \<times> nat)" where
  "splitCommandInHalf subIdx cmdIdx pm idCounter =
     (case findCommandStateInfo subIdx cmdIdx pm of
        Inl e \<Rightarrow> Inl e
      | Inr (targetCm, cmsIdx, cmIdx, splitIdx) \<Rightarrow>
          (case findSubPathState (subPathStateMap pm) cmsIdx of
             None \<Rightarrow> Inl TypeError
           | Some sps \<Rightarrow>
               (let offset = getUpdatedShiftOffsetsAfterSplit sps cmIdx 1
                in case splitInHalfAtIndex (toIndex (length (mutations targetCm) + 1) splitIdx)
                          (mutate targetCm) idCounter of
                     Inl e \<Rightarrow> Inl e
                   | Inr (m, idCounter') \<Rightarrow>
                       (case build m of
                          Inl e \<Rightarrow> Inl e
                        | Inr cs \<Rightarrow>
                            Inr (setSubPathState
                                   (setCommandState cs cmIdx (setShiftOffset offset sps))
                                   cmsIdx pm,
                                 idCounter')))))"

text \<open>Modelled from the spec: \<^verbatim>\<open>newCommand\<close> (absent) makes a command of the given kind
  and points with a fresh id.\<close>

definition newCommand :: "SvgChar \<Rightarrow> Point option list \<Rightarrow> nat \<Rightarrow> Command \<times> nat" where
  "newCommand svgChar points idCounter =
     (case uniqueId idCounter of
        (ident, idCounter') \<Rightarrow>
          (\<lparr>getSvgChar = svgChar, getPoints = points, getId = ident, isSplitPoint = False\<rparr>,
           idCounter'))"

text \<open>
  \<^verbatim>\<open>splitStrokedSubPath\<close>. The loop sends the command states before the target to the
  first half and those after it to the second; the target is forked at the split index,
  its left part closes the first half, and the second half starts with a Move to the
  split point followed by the right part if that holds a command.
\<close>

fun strokeLoop :: "(Command \<Rightarrow> Calculator) \<Rightarrow> nat \<Rightarrow> int \<Rightarrow> CommandState list \<Rightarrow> nat
                    \<Rightarrow> CommandState list \<Rightarrow> CommandState list \<Rightarrow> nat
                    \<Rightarrow> error + (CommandState list \<times> CommandState list \<times> nat)" where
  "strokeLoop newCalculator cmIdx splitIdx [] i startCommandStates endCommandStates idCounter =
     Inr (startCommandStates, endCommandStates, idCounter)"
| "strokeLoop newCalculator cmIdx splitIdx (cs # rest) i startCommandStates endCommandStates
     idCounter =
     (if i < cmIdx
      then strokeLoop newCalculator cmIdx splitIdx rest (i + 1)
             (startCommandStates @ [cs]) endCommandStates idCounter
      else if cmIdx < i
      then strokeLoop newCalculator cmIdx splitIdx rest (i + 1)
             startCommandStates (endCommandStates @ [cs]) idCounter
      else if splitIdx < 0 then Inl TypeError
      else case nth_opt (getCommands cs) (nat splitIdx) of
             None \<Rightarrow> Inl TypeError
           | Some cmd \<Rightarrow>
               (let splitPoint = getEnd cmd
                in case fork cs (nat splitIdx) of
                     Inl e \<Rightarrow> Inl e
                   | Inr (left, right) \<Rightarrow>
                       (case newCommand SvgM [splitPoint, splitPoint] idCounter of
                          (seam, idCounter') \<Rightarrow>
                            strokeLoop newCalculator cmIdx splitIdx rest (i + 1)
                              (startCommandStates @ [left])
                              (endCommandStates @ [new_CommandState newCalculator seam]
                                 @ (if getCommands right \<noteq> [] then [right] else []))
                              idCounter')))"

definition splitStrokedSubPath :: "(Command \<Rightarrow> Calculator) \<Rightarrow> nat \<Rightarrow> int \<Rightarrow> PathMutator \<Rightarrow> nat
                                    \<Rightarrow> error + (PathMutator \<times> nat)" where
  "splitStrokedSubPath newCalculator subIdx cmdIdx pm idCounter =
     (case findCommandStateInfo subIdx cmdIdx pm of
        Inl e \<Rightarrow> Inl e
      | Inr (targetCm, cmsIdx, cmIdx, splitIdx) \<Rightarrow>
          (case findSubPathState (subPathStateMap pm) cmsIdx of
             None \<Rightarrow> Inl TypeError
           | Some sps \<Rightarrow>
               (case strokeLoop newCalculator cmIdx splitIdx (commandStates sps) 0 [] [] idCounter of
                  Inl e \<Rightarrow> Inl e
                | Inr (startCommandStates, endCommandStates, idCounter1) \<Rightarrow>
                    (case uniqueId idCounter1 of
                       (id1, idCounter2) \<Rightarrow>
                         (case uniqueId idCounter2 of
                            (id2, idCounter3) \<Rightarrow>
                              (let splitSubPaths =
                                     [setId id1 (setSplitSubPaths []
                                        (setCommandStates startCommandStates sps)),
                                      setId id2 (setSplitSubPaths []
                                        (setCommandStates endCommandStates sps))];
                                   pm' = setSubPathState (setSplitSubPaths splitSubPaths sps)
                                           cmsIdx pm
                               in Inr (pm'\<lparr>subPathOrdering :=
                                            subPathOrdering pm' @ [length (subPathOrdering pm')]\<rparr>,
                                       idCounter3)))))))"

text \<open>
  \<^verbatim>\<open>build\<close>. The commands of every leaf are read through \<^verbatim>\<open>toSubPaths()\<close>, which is
  absent and taken as the parameter \<open>toCommands\<close>; they are put in the visible order and
  concatenated, and then the points are linked: the first command loses its start
  point, every other command gets the end point of the one before it as its first
  point. An entry of the ordering that names no leaf leaves \<^verbatim>\<open>undefined\<close> in the list,
  on which the loop fails with a \<^verbatim>\<open>TypeError\<close>.
\<close>

record PathState =
  ps_commands :: "Command list"
  ps_subPathStateMap :: "SubPathState list"
  ps_subPathOrdering :: "nat list"
  ps_numCollapsingSubPaths :: nat

text \<open>\<^verbatim>\<open>pts[0] = p\<close> on a copy of the points: JavaScript extends an empty array.\<close>

definition setFirstPoint :: "Point option \<Rightarrow> Point option list \<Rightarrow> Point option list" where
  "setFirstPoint p pts = (case pts of [] \<Rightarrow> [p] | _ # rest \<Rightarrow> p # rest)"

fun relinkRest :: "Command \<Rightarrow> Command list \<Rightarrow> Command list" where
  "relinkRest prev [] = []"
| "relinkRest prev (cmd # rest) =
     (let cmd' = cmd\<lparr>getPoints := setFirstPoint (getEnd prev) (getPoints cmd)\<rparr>
      in cmd' # relinkRest cmd' rest)"

definition relink :: "Command list \<Rightarrow> Command list" where
  "relink reorderedCommands =
     (case reorderedCommands of
        [] \<Rightarrow> []
      | cmd # rest \<Rightarrow>
          (let cmd' = (if getStart cmd \<noteq> None then cmd\<lparr>getPoints := [None, getEnd cmd]\<rparr>
                       else cmd)
           in cmd' # relinkRest cmd' rest))"

definition PathMutator_build :: "(SubPathState \<Rightarrow> Command list) \<Rightarrow> PathMutator \<Rightarrow> error + PathState" where
  "PathMutator_build toCommands pm =
     (let subPathStates = flattenSubPathStates (subPathStateMap pm);
          subPathCmds = map toCommands subPathStates;
          reorderedSubPathCmds = map (nth_opt subPathCmds) (subPathOrdering pm)
      in if None \<in> set reorderedSubPathCmds then Inl TypeError
         else Inr \<lparr>ps_commands =
                     relink (concat (map (\<lambda>r. case r of None \<Rightarrow> [] | Some cmds \<Rightarrow> cmds)
                                         reorderedSubPathCmds)),
                   ps_subPathStateMap = subPathStateMap pm,
                   ps_subPathOrdering = subPathOrdering pm,
                   ps_numCollapsingSubPaths = numCollapsingSubPaths pm\<rparr>)"

text \<open>A list with the entry at \<open>j\<close> replaced by the entries of \<open>new\<close>.\<close>

definition replaceAt :: "nat \<Rightarrow> 'a list \<Rightarrow> 'a list \<Rightarrow> 'a list" where
  "replaceAt j new F = take j F @ new @ drop (j + 1) F"

section \<open>Example paths\<close>

text \<open>A stand-in for the absent \<^verbatim>\<open>toSubPaths()\<close>: the commands of a leaf in storage
  order.\<close>

definition storedCommands :: "SubPathState \<Rightarrow> Command list" where
  "storedCommands sps = concat (map getCommands (commandStates sps))"

text \<open>A path with one sub-path of a Move and a line whose stored points do not meet.\<close>

definition looseMove :: Command where
  "looseMove = \<lparr>getSvgChar = SvgM, getPoints = [Some (5, 5), Some (1, 1)], getId = 21,
                 isSplitPoint = False\<rparr>"

definition looseLine :: Command where
  "looseLine = \<lparr>getSvgChar = SvgL, getPoints = [Some (9, 9), Some (2, 2)], getId = 22,
                 isSplitPoint = False\<rparr>"

definition loosePath :: PathMutator where
  "loosePath =
     \<lparr>subPathStateMap =
        [SubPathState [new_CommandState pointCalculatorOf looseMove,
                       new_CommandState pointCalculatorOf looseLine] False 0 23 []],
      subPathOrdering = [0],
      numCollapsingSubPaths = 0\<rparr>"

text \<open>A path whose only sub-path holds a single Move command.\<close>

definition singlePath :: PathMutator where
  "singlePath =
     \<lparr>subPathStateMap = [SubPathState [moveState] False 0 24 []],
      subPathOrdering = [0],
      numCollapsingSubPaths = 0\<rparr>"

text \<open>A path whose only sub-path holds a Move and two lines and has shift offset 1.\<close>

definition shiftedPath :: PathMutator where
  "shiftedPath =
     \<lparr>subPathStateMap = [SubPathState [moveState, lineState, lineState] False 1 25 []],
      subPathOrdering = [0],
      numCollapsingSubPaths = 0\<rparr>"

text \<open>An open sub-path of four commands: a Move, a line, and a line split in two.\<close>

definition strokePath :: PathMutator where
  "strokePath =
     \<lparr>subPathStateMap = [SubPathState [moveState, lineState, lineSplitState] False 0 26 []],
      subPathOrdering = [0],
      numCollapsingSubPaths = 0\<rparr>"

section \<open>Properties of the sorted index\<close>

lemma sortedIndexLoop_bounds:
  "low \<le> high \<Longrightarrow> low \<le> sortedIndexLoop xs v low high \<and> sortedIndexLoop xs v low high \<le> high"
proof (induction xs v low high rule: sortedIndexLoop.induct)
  case (1 array v low high)
  show ?case
  proof (cases "low < high")
    case False
    with "1.prems" show ?thesis by (simp add: sortedIndexLoop.simps)
  next
    case True
    define mid where "mid = (low + high) div 2"
    have m: "low \<le> mid" "mid < high" using True by (auto simp: mid_def)
    show ?thesis
    proof (cases "array ! mid < v")
      case True
      have "mid + 1 \<le> sortedIndexLoop array v (mid + 1) high \<and> sortedIndexLoop array v (mid + 1) high \<le> high"
        using "1.IH"(1)[OF \<open>low < high\<close> mid_def True] m by simp
      moreover have "sortedIndexLoop array v low high = sortedIndexLoop array v (mid + 1) high"
        using \<open>low < high\<close> True by (subst sortedIndexLoop.simps) (simp add: mid_def Let_def)
      ultimately show ?thesis using m by simp
    next
      case False
      have "low \<le> sortedIndexLoop array v low mid \<and> sortedIndexLoop array v low mid \<le> mid"
        using "1.IH"(2)[OF \<open>low < high\<close> mid_def False] m by simp
      moreover have "sortedIndexLoop array v low high = sortedIndexLoop array v low mid"
        using \<open>low < high\<close> False by (subst sortedIndexLoop.simps) (simp add: mid_def Let_def)
      ultimately show ?thesis using m by simp
    qed
  qed
qed

lemma sortedIndexLoop_spec:
  "sorted xs \<Longrightarrow> low \<le> high \<Longrightarrow> high \<le> length xs \<Longrightarrow> (\<forall>i<low. xs ! i < v)
   \<Longrightarrow> (\<forall>i. high \<le> i \<and> i < length xs \<longrightarrow> v \<le> xs ! i)
   \<Longrightarrow> (\<forall>i<sortedIndexLoop xs v low high. xs ! i < v)
       \<and> (\<forall>i. sortedIndexLoop xs v low high \<le> i \<and> i < length xs \<longrightarrow> v \<le> xs ! i)"
proof (induction xs v low high rule: sortedIndexLoop.induct)
  case (1 array v low high)
  show ?case
  proof (cases "low < high")
    case False
    with "1.prems" have "low = high" by simp
    with "1.prems" show ?thesis by (simp add: sortedIndexLoop.simps)
  next
    case True
    define mid where "mid = (low + high) div 2"
    have m: "low \<le> mid" "mid < high" using True by (auto simp: mid_def)
    show ?thesis
    proof (cases "array ! mid < v")
      case True
      have below: "\<forall>i<mid + 1. array ! i < v"
      proof (intro allI impI)
        fix i assume "i < mid + 1"
        then have "i \<le> mid" by simp
        then have "array ! i \<le> array ! mid"
          using \<open>sorted array\<close> m "1.prems"(3) by (simp add: sorted_nth_mono)
        with True show "array ! i < v" by simp
      qed
      have eq: "sortedIndexLoop array v low high = sortedIndexLoop array v (mid + 1) high"
        using \<open>low < high\<close> True by (subst sortedIndexLoop.simps) (simp add: mid_def Let_def)
      show ?thesis unfolding eq
        using "1.IH"(1)[OF \<open>low < high\<close> mid_def True \<open>sorted array\<close> _ "1.prems"(3) below "1.prems"(5)] m
        by simp
    next
      case False
      have above: "\<forall>i. mid \<le> i \<and> i < length array \<longrightarrow> v \<le> array ! i"
      proof (intro allI impI)
        fix i assume "mid \<le> i \<and> i < length array"
        then have "array ! mid \<le> array ! i"
          using \<open>sorted array\<close> by (simp add: sorted_nth_mono)
        with False show "v \<le> array ! i" by simp
      qed
      have eq: "sortedIndexLoop array v low high = sortedIndexLoop array v low mid"
        using \<open>low < high\<close> False by (subst sortedIndexLoop.simps) (simp add: mid_def Let_def)
      show ?thesis unfolding eq
        using "1.IH"(2)[OF \<open>low < high\<close> mid_def False \<open>sorted array\<close> _ _ "1.prems"(4) above] m "1.prems"(3)
        by simp
    qed
  qed
qed

lemma sortedIndex_le_length: "sortedIndex xs v \<le> length xs"
  using sortedIndexLoop_bounds[of 0 "length xs" xs v] by (simp add: sortedIndex_def)

lemma sortedIndex_spec:
  assumes "sorted xs"
  shows "(\<forall>i<sortedIndex xs v. xs ! i < v)"
    and "(\<forall>i. sortedIndex xs v \<le> i \<and> i < length xs \<longrightarrow> v \<le> xs ! i)"
  using sortedIndexLoop_spec[OF assms, of 0 "length xs" v] by (simp_all add: sortedIndex_def)


lemma sorted_splice_insert:
  assumes "sorted xs"
  shows "sorted (splice_insert (sortedIndex xs v) v xs)"
proof -
  let ?r = "sortedIndex xs v"
  have rl: "?r \<le> length xs" by (rule sortedIndex_le_length)
  have a: "\<forall>x\<in>set (take ?r xs). x < v"
    using sortedIndex_spec(1)[OF assms, of v] rl by (auto simp: in_set_conv_nth)
  have b: "\<forall>x\<in>set (drop ?r xs). v \<le> x"
    using sortedIndex_spec(2)[OF assms, of v] rl by (auto simp: in_set_conv_nth)
  have c: "\<forall>x\<in>set (take ?r xs). \<forall>y\<in>set (drop ?r xs). x \<le> y"
    using a b by fastforce
  show ?thesis
    unfolding splice_insert_def
    using assms a b c by (auto simp: sorted_append sorted_wrt_take sorted_wrt_drop less_imp_le)
qed

section \<open>Basic facts\<close>


lemma nth_opt_Some: "i < length xs \<Longrightarrow> nth_opt xs i = Some (xs ! i)"
  by (simp add: nth_opt_def)

lemma nth_opt_None: "length xs \<le> i \<Longrightarrow> nth_opt xs i = None"
  by (simp add: nth_opt_def)


section \<open>Some doubles\<close>




lemma lerp_unit_half: "lerp 0 1 (1 / 2) = 1 / 2"
  by code_simp






section \<open>Inserting into the mutation list\<close>

lemma sortedIndexLoop_stop: "\<not> low < high \<Longrightarrow> sortedIndexLoop a v low high = high"
  by (simp add: sortedIndexLoop.simps)

lemma sortedIndexLoop_step:
  "low < high \<Longrightarrow> sortedIndexLoop a v low high =
     (if a ! ((low + high) div 2) < v then sortedIndexLoop a v ((low + high) div 2 + 1) high
      else sortedIndexLoop a v low ((low + high) div 2))"
  by (subst sortedIndexLoop.simps) (simp add: Let_def)

lemma mset_splice_insert: "mset (splice_insert i x xs) = add_mset x (mset xs)"
proof -
  have "mset (take i xs) + mset (drop i xs) = mset xs"
    by (metis append_take_drop_id mset_append)
  then show ?thesis by (simp add: splice_insert_def)
qed

lemma length_splice_insert: "length (splice_insert i x xs) = Suc (length xs)"
  by (metis mset_splice_insert size_add_mset size_mset)

lemma map_splice_insert: "map f (splice_insert i x xs) = splice_insert i (f x) (map f xs)"
  by (simp add: splice_insert_def take_map drop_map)

lemma sorted_insert_mutation:
  "sorted (map mut_t muts) \<Longrightarrow>
   sorted (map mut_t (splice_insert (sortedIndexBy muts mutation) mutation muts))"
  by (simp add: map_splice_insert sortedIndexBy_def sorted_splice_insert)

lemma merge_loop_mset:
  "mset (fst (merge_loop ids other muts w)) = mset muts + mset other"
  by (induction other arbitrary: muts w) (simp_all add: Let_def mset_splice_insert)

lemma merge_loop_sorted:
  "sorted (map mut_t muts) \<Longrightarrow> sorted (map mut_t (fst (merge_loop ids other muts w)))"
  by (induction other arbitrary: muts w) (simp_all add: Let_def sorted_insert_mutation)

lemma merge_loop_warnings:
  "snd (merge_loop ids other muts w) = w @ filter (\<lambda>i. i \<in> ids) (map mut_id other)"
  by (induction other arbitrary: muts w) (simp_all add: Let_def)

section \<open>Properties of the private split\<close>

lemma sortedIndex_less_length:
  assumes "sorted xs" "xs \<noteq> []" "v \<le> last xs"
  shows "sortedIndex xs v < length xs"
proof (rule ccontr)
  assume "\<not> sortedIndex xs v < length xs"
  with sortedIndex_le_length[of xs v] have e: "sortedIndex xs v = length xs" by simp
  have "length xs - 1 < sortedIndex xs v" using e assms(2) by simp
  then have "xs ! (length xs - 1) < v" using sortedIndex_spec(1)[OF assms(1), of v] by blast
  then show False using assms(2,3) by (simp add: last_conv_nth)
qed

text \<open>The kind a new mutation inherits: that of the mutation at the sorted index of
  its \<open>t\<close>, \<^verbatim>\<open>undefined\<close> past the end.\<close>

lemma split_loop_single:
  "split_loop cs ks [s] muts idCounter =
     (let k = (case nth_opt ks (sortedIndex cs s) of None \<Rightarrow> None | Some k \<Rightarrow> k)
      in (splice_insert
            (sortedIndexBy muts \<lparr>mut_id = idCounter + 1, mut_t = s, mut_svgChar = k\<rparr>)
            \<lparr>mut_id = idCounter + 1, mut_t = s, mut_svgChar = k\<rparr> muts,
          idCounter + 1))"
  by (simp add: uniqueId_def Let_def)

lemma forceLine_fields [simp]:
  "mut_t (forceLine x) = mut_t x" "mut_id (forceLine x) = mut_id x"
  by (simp_all add: forceLine_def)

lemma map_t_forceLines: "map mut_t (forceLines muts) = map mut_t muts"
proof (cases "muts = []")
  case True then show ?thesis by (simp add: forceLines_def)
next
  case False
  then have "map mut_t muts = map mut_t (butlast muts @ [last muts])" by simp
  with False show ?thesis by (simp add: forceLines_def del: append_butlast_last_id)
qed


lemma length_forceLines: "length (forceLines muts) = length muts"
  by (metis length_map map_t_forceLines)

lemma forceLines_Nil_iff: "forceLines muts = [] \<longleftrightarrow> muts = []"
  by (simp add: forceLines_def)

lemma last_forceLines: "last (forceLines muts) = last muts"
  by (simp add: forceLines_def)

lemma butlast_forceLines: "butlast (forceLines muts) = map forceLine (butlast muts)"
  by (simp add: forceLines_def butlast_append)

lemma forceLines_no_close:
  "\<forall>x\<in>set (butlast (forceLines muts)). mut_svgChar x \<noteq> Some SvgZ"
  by (auto simp: butlast_forceLines forceLine_def)

lemma forceLines_id:
  "\<forall>x\<in>set (butlast muts). mut_svgChar x \<noteq> Some SvgZ \<Longrightarrow> forceLines muts = muts"
proof (cases "muts = []")
  case True then show ?thesis by (simp add: forceLines_def)
next
  case False
  assume a: "\<forall>x\<in>set (butlast muts). mut_svgChar x \<noteq> Some SvgZ"
  then have "map forceLine (butlast muts) = butlast muts"
    by (intro map_idI) (simp add: forceLine_def)
  with False show ?thesis by (simp add: forceLines_def)
qed
lemma last_splice_insert: "r < length xs \<Longrightarrow> last (splice_insert r x xs) = last xs"
  by (simp add: splice_insert_def)

lemma splice_insert_not_Nil [simp]: "splice_insert r x xs \<noteq> []"
  by (simp add: splice_insert_def)

lemma split_loop_ok:
  "\<exists>muts'. split_loop cs ks ts muts idCounter = (muts', idCounter + length ts)
           \<and> length muts' = length muts + length ts
           \<and> mset (map mut_t muts') = mset (map mut_t muts) + mset ts
           \<and> (sorted (map mut_t muts) \<longrightarrow> sorted (map mut_t muts'))
           \<and> (sorted (map mut_t muts) \<and> muts \<noteq> [] \<and> (\<forall>s\<in>set ts. s \<le> mut_t (last muts))
                \<longrightarrow> last muts' = last muts)"
proof (induction ts arbitrary: muts idCounter)
  case Nil
  then show ?case by simp
next
  case (Cons s ts)
  define k where "k = (case nth_opt ks (sortedIndex cs s) of None \<Rightarrow> None | Some k \<Rightarrow> k)"
  define new where "new = \<lparr>mut_id = idCounter + 1, mut_t = s, mut_svgChar = k\<rparr>"
  define muts1 where "muts1 = splice_insert (sortedIndexBy muts new) new muts"
  have step: "split_loop cs ks (s # ts) muts idCounter = split_loop cs ks ts muts1 (idCounter + 1)"
    by (simp add: uniqueId_def Let_def new_def muts1_def k_def)
  from Cons.IH[of muts1 "idCounter + 1"] obtain muts' where
    r: "split_loop cs ks ts muts1 (idCounter + 1) = (muts', idCounter + 1 + length ts)"
       "length muts' = length muts1 + length ts"
       "mset (map mut_t muts') = mset (map mut_t muts1) + mset ts"
       "sorted (map mut_t muts1) \<longrightarrow> sorted (map mut_t muts')"
       "sorted (map mut_t muts1) \<and> muts1 \<noteq> [] \<and> (\<forall>s\<in>set ts. s \<le> mut_t (last muts1))
                \<longrightarrow> last muts' = last muts1"
    by blast
  have l1: "length muts1 = Suc (length muts)" by (simp add: muts1_def length_splice_insert)
  have m1: "mset (map mut_t muts1) = add_mset s (mset (map mut_t muts))"
    by (simp add: muts1_def map_splice_insert mset_splice_insert new_def)
  have s1: "sorted (map mut_t muts) \<Longrightarrow> sorted (map mut_t muts1)"
    unfolding muts1_def by (rule sorted_insert_mutation)
  have last1: "last muts1 = last muts"
    if "sorted (map mut_t muts)" "muts \<noteq> []" "s \<le> mut_t (last muts)"
  proof -
    have "sortedIndex (map mut_t muts) s < length (map mut_t muts)"
      using that by (intro sortedIndex_less_length) (simp_all add: last_map)
    then show ?thesis
      by (simp add: muts1_def sortedIndexBy_def new_def last_splice_insert)
  qed
  have c1: "split_loop cs ks (s # ts) muts idCounter = (muts', idCounter + length (s # ts))"
    unfolding step using r(1) by simp
  have c2: "length muts' = length muts + length (s # ts)" using r(2) l1 by simp
  have c3: "mset (map mut_t muts') = mset (map mut_t muts) + mset (s # ts)"
    using r(3) m1 by simp
  have c5: "sorted (map mut_t muts) \<longrightarrow> sorted (map mut_t muts')" using r(4) s1 by blast
  have c6: "sorted (map mut_t muts) \<and> muts \<noteq> [] \<and> (\<forall>s\<in>set (s # ts). s \<le> mut_t (last muts))
                \<longrightarrow> last muts' = last muts"
  proof
    assume a: "sorted (map mut_t muts) \<and> muts \<noteq> [] \<and> (\<forall>s\<in>set (s # ts). s \<le> mut_t (last muts))"
    then have l: "last muts1 = last muts" by (intro last1) simp_all
    have "muts1 \<noteq> []" by (simp add: muts1_def)
    with a l s1 r(5) show "last muts' = last muts" by simp
  qed
  from c1 c2 c3 c5 c6 show ?case by blast
qed

lemma split_ts_ok:
  assumes "getSvgChar (m_backingCommand m) \<noteq> SvgM" "ts \<noteq> []"
  shows "\<exists>muts'. split_ts ts m idCounter = Inr (m\<lparr>m_mutations := muts'\<rparr>, idCounter + length ts)
           \<and> length muts' = length (m_mutations m) + length ts
           \<and> mset (map mut_t muts') = mset (map mut_t (m_mutations m)) + mset ts
           \<and> (sorted (map mut_t (m_mutations m)) \<longrightarrow> sorted (map mut_t muts'))
           \<and> (sorted (map mut_t (m_mutations m)) \<and> m_mutations m \<noteq> []
                \<and> (\<forall>s\<in>set ts. s \<le> mut_t (last (m_mutations m)))
                \<longrightarrow> mut_t (last muts') = mut_t (last (m_mutations m)))
           \<and> muts' \<noteq> []
           \<and> (\<forall>x\<in>set (butlast muts'). mut_svgChar x \<noteq> Some SvgZ)"
proof -
  let ?cs = "map mut_t (m_mutations m)"
  let ?ks = "map mut_svgChar (m_mutations m)"
  from split_loop_ok[of ?cs ?ks ts "m_mutations m" idCounter]
  obtain muts' where
    r: "split_loop ?cs ?ks ts (m_mutations m) idCounter = (muts', idCounter + length ts)"
       "length muts' = length (m_mutations m) + length ts"
       "mset (map mut_t muts') = mset (map mut_t (m_mutations m)) + mset ts"
       "sorted (map mut_t (m_mutations m)) \<longrightarrow> sorted (map mut_t muts')"
       "sorted (map mut_t (m_mutations m)) \<and> m_mutations m \<noteq> [] \<and> (\<forall>s\<in>set ts. s \<le> mut_t (last (m_mutations m)))
                \<longrightarrow> last muts' = last (m_mutations m)"
    by blast
  have ne: "muts' \<noteq> []" using r(2) assms(2) by auto
  have e: "split_ts ts m idCounter
      = Inr (m\<lparr>m_mutations := forceLines muts'\<rparr>, idCounter + length ts)"
    using assms r(1) by (simp add: split_ts_def Let_def)
  have "length (forceLines muts') = length (m_mutations m) + length ts"
    using r(2) by (simp add: length_forceLines)
  moreover have "mset (map mut_t (forceLines muts')) = mset (map mut_t (m_mutations m)) + mset ts"
    using r(3) by (simp add: map_t_forceLines)
  moreover have "sorted (map mut_t (m_mutations m)) \<longrightarrow> sorted (map mut_t (forceLines muts'))"
    using r(4) by (simp add: map_t_forceLines)
  moreover have "sorted (map mut_t (m_mutations m)) \<and> m_mutations m \<noteq> []
                \<and> (\<forall>s\<in>set ts. s \<le> mut_t (last (m_mutations m)))
                \<longrightarrow> mut_t (last (forceLines muts')) = mut_t (last (m_mutations m))"
    using r(5) by (simp add: last_forceLines)
  moreover have "forceLines muts' \<noteq> []" using ne by (simp add: forceLines_Nil_iff)
  moreover have "\<forall>x\<in>set (butlast (forceLines muts')). mut_svgChar x \<noteq> Some SvgZ"
    by (rule forceLines_no_close)
  ultimately show ?thesis using e by blast
qed
section \<open>Splitting and unsplitting at one index\<close>





lemma geometry_update [simp]:
  "geometry (cmd\<lparr>getId := i\<rparr>) = geometry cmd"
  "geometry (cmd\<lparr>getId := i, isSplitPoint := b\<rparr>) = geometry (cmd\<lparr>isSplitPoint := b\<rparr>)"
  by (simp_all add: geometry_def)




section \<open>The invariant of the mutation list\<close>

lemma build_fields:
  "build m = Inr cs \<Longrightarrow>
     mutations cs = m_mutations m \<and> minT cs = m_minT m \<and> maxT cs = m_maxT m
     \<and> backingCommand cs = m_backingCommand m \<and> calculator cs = m_calculator m"
  by (auto simp: build_def split: sum.splits)

lemma mutate_fields [simp]:
  "m_mutations (mutate cs) = mutations cs" "m_minT (mutate cs) = minT cs"
  "m_maxT (mutate cs) = maxT cs" "m_backingCommand (mutate cs) = backingCommand cs"
  "m_calculator (mutate cs) = calculator cs"
  by (simp_all add: mutate_def)

lemma sorted_remove_nth:
  assumes "sorted xs"
  shows "sorted (take i xs @ drop (Suc i) xs)"
proof (cases "i < length xs")
  case True
  then have "xs = take i xs @ xs ! i # drop (Suc i) xs" by (rule id_take_nth_drop)
  with assms have "sorted (take i xs @ xs ! i # drop (Suc i) xs)" by simp
  then show ?thesis by (auto simp: sorted_append)
next
  case False
  with assms show ?thesis by simp
qed

lemma sorted_last_Max: "sorted xs \<Longrightarrow> xs \<noteq> [] \<Longrightarrow> last xs = Max (set xs)"
proof -
  assume s: "sorted xs" and ne: "xs \<noteq> []"
  have "\<forall>x\<in>set xs. x \<le> last xs"
  proof
    fix x assume "x \<in> set xs"
    then obtain j where j: "j < length xs" "xs ! j = x" by (auto simp: in_set_conv_nth)
    then have "xs ! j \<le> xs ! (length xs - 1)" using s by (intro sorted_nth_mono) auto
    with j ne show "x \<le> last xs" by (simp add: last_conv_nth)
  qed
  moreover have "last xs \<in> set xs" using ne by simp
  ultimately show ?thesis by (intro Max_eqI[symmetric]) auto
qed

lemma mutations_ok_lo_le_hi: "mutations_ok lo hi ts \<Longrightarrow> lo \<le> hi"
  unfolding mutations_ok_def by (metis last_in_set)

lemma mutations_ok_new: "mutations_ok 0 1 [1]"
  by (simp add: mutations_ok_def)

lemma mutations_ok_insert:
  assumes ok: "mutations_ok lo hi ts" and b: "\<forall>s\<in>set new. lo \<le> s \<and> s \<le> hi"
    and r: "sorted ts'" "mset ts' = mset ts + mset new" "last ts' = last ts"
  shows "mutations_ok lo hi ts'"
proof -
  have "set ts' = set ts \<union> set new" using r(2) by (metis set_mset_mset set_mset_union)
  moreover have "ts' \<noteq> []" using r(2) ok by (auto simp: mutations_ok_def)
  ultimately show ?thesis using ok b r by (auto simp: mutations_ok_def)
qed

lemma mutations_ok_unsplit:
  assumes ok: "mutations_ok lo hi ts" and i: "i + 1 < length ts"
  shows "mutations_ok lo hi (take i ts @ drop (i + 1) ts)"
proof -
  have d: "drop (Suc i) ts \<noteq> []" using i by simp
  have "set (take i ts @ drop (Suc i) ts) \<subseteq> set ts"
    by (auto dest: in_set_takeD in_set_dropD)
  then show ?thesis
    using ok d sorted_remove_nth[of ts i] by (auto simp: mutations_ok_def)
qed

lemma mutations_ok_forkLeft:
  assumes ok: "mutations_ok lo hi ts" and i: "i < length ts"
  shows "mutations_ok lo (ts ! i) (take (i + 1) ts)"
proof -
  have l: "last (take (Suc i) ts) = ts ! i" using i by (simp add: take_Suc_conv_app_nth)
  have le: "ts ! i \<le> last ts"
    using ok i by (auto simp: mutations_ok_def last_conv_nth intro!: sorted_nth_mono)
  have "set (take (Suc i) ts) \<subseteq> set ts" by (rule set_take_subset)
  then show ?thesis
    using ok i l le by (auto simp: mutations_ok_def sorted_wrt_take)
qed

lemma mutations_ok_forkRight:
  assumes ok: "mutations_ok lo hi ts" and i: "i < length ts" and ne: "drop (i + 1) ts \<noteq> []"
  shows "mutations_ok (ts ! i) hi (drop (i + 1) ts)"
proof -
  have s: "sorted ts" using ok by (simp add: mutations_ok_def)
  have ge: "\<forall>x\<in>set (drop (Suc i) ts). ts ! i \<le> x"
  proof
    fix x assume "x \<in> set (drop (Suc i) ts)"
    then obtain j where "j < length (drop (Suc i) ts)" "drop (Suc i) ts ! j = x"
      by (auto simp: in_set_conv_nth)
    then have "Suc i + j < length ts" "ts ! (Suc i + j) = x" by auto
    then show "ts ! i \<le> x" using s sorted_nth_mono[of ts i "Suc i + j"] by simp
  qed
  have "lo \<le> ts ! i" using ok i by (auto simp: mutations_ok_def)
  moreover have "0 \<le> lo" using ok by (simp add: mutations_ok_def)
  ultimately have "0 \<le> ts ! i" by simp
  then show ?thesis
    using ok ne ge by (auto simp: mutations_ok_def sorted_wrt_drop)
qed

lemma mutations_ok_merge:
  assumes a: "mutations_ok lo hi ts" and b: "mutations_ok lo' hi' us"
    and r: "sorted vs" "mset vs = mset ts + mset us"
  shows "mutations_ok (min lo lo') (max hi hi') vs"
proof -
  have set: "set vs = set ts \<union> set us" using r(2) by (metis set_mset_mset set_mset_union)
  have ne: "vs \<noteq> []" "ts \<noteq> []" "us \<noteq> []" using set a b by (auto simp: mutations_ok_def)
  have "last vs = Max (set ts \<union> set us)" using sorted_last_Max[OF r(1) ne(1)] set by simp
  also have "\<dots> = max (Max (set ts)) (Max (set us))" using ne by (intro Max_Un) auto
  also have "\<dots> = max hi hi'"
    using a b sorted_last_Max[of ts] sorted_last_Max[of us] by (simp add: mutations_ok_def)
  finally have l: "last vs = max hi hi'" .
  show ?thesis
    using a b r(1) ne l set by (auto simp: mutations_ok_def min_def max_def)
qed

lemma mutations_ok_revert: "mutations_ok lo hi ts \<Longrightarrow> mutations_ok lo hi [hi]"
  using mutations_ok_lo_le_hi[of lo hi ts] by (simp add: mutations_ok_def)

lemma map_t_unconvert:
  "map mut_t (m_mutations (unconvertSubpath m)) = map mut_t (m_mutations m)"
proof -
  have "map mut_t (map (\<lambda>(mutation, i). mutation\<lparr>mut_svgChar := f i\<rparr>) (zip xs [0..<length xs]))
      = map mut_t xs" for f and xs :: "Mutation list"
  proof -
    have "map mut_t (map (\<lambda>(mutation, i). mutation\<lparr>mut_svgChar := f i\<rparr>) (zip xs [0..<length xs]))
        = map (mut_t \<circ> fst) (zip xs [0..<length xs])"
      by (simp add: comp_def case_prod_beta)
    also have "\<dots> = map mut_t (map fst (zip xs [0..<length xs]))"
      by (simp only: map_map)
    also have "map fst (zip xs [0..<length xs]) = xs" by (simp add: map_fst_zip)
    finally show ?thesis .
  qed
  then show ?thesis by (simp add: unconvertSubpath_def Let_def)
qed

lemma unconvert_kinds:
  assumes "getSvgChar (m_backingCommand m) = SvgZ"
  shows "\<forall>x\<in>set (butlast (m_mutations (unconvertSubpath m))). mut_svgChar x = Some SvgL"
proof
  fix x assume x: "x \<in> set (butlast (m_mutations (unconvertSubpath m)))"
  let ?us = "m_mutations (unconvertSubpath m)"
  let ?n = "length (m_mutations m)"
  have len: "length ?us = ?n" by (simp add: unconvertSubpath_def Let_def)
  from x obtain j where j: "j < length (butlast ?us)" "butlast ?us ! j = x"
    by (auto simp: in_set_conv_nth)
  then have jn: "j + 1 < ?n" using len by simp
  have "x = ?us ! j" using j by (simp add: nth_butlast)
  also have "mut_svgChar (?us ! j) = Some SvgL"
    using jn assms by (simp add: unconvertSubpath_def Let_def)
  finally show "mut_svgChar x = Some SvgL" .
qed

lemma fork_fields:
  assumes "fork cs i = Inr (left, right)"
  shows "i < length (mutations cs)"
    and "mutations left = take (i + 1) (mutations cs)"
    and "minT left = minT cs" and "maxT left = mut_t (mutations cs ! i)"
    and "mutations right = drop (i + 1) (mutations cs)"
    and "minT right = mut_t (mutations cs ! i)" and "maxT right = maxT cs"
proof -
  show il: "i < length (mutations cs)"
    using assms by (auto simp: fork_def andThen_def forkLeft_def nth_opt_def split: if_splits)
  then have fl: "forkLeft i (mutate cs) = Inr ((mutate cs)\<lparr>m_maxT := mut_t (mutations cs ! i),
                 m_mutations := take (i + 1) (mutations cs)\<rparr>)"
    and fr: "forkRight i (mutate cs) = Inr ((mutate cs)\<lparr>m_minT := mut_t (mutations cs ! i),
                 m_mutations := drop (i + 1) (mutations cs)\<rparr>)"
    by (simp_all add: forkLeft_def forkRight_def nth_opt_def)
  from assms have bl: "build ((mutate cs)\<lparr>m_maxT := mut_t (mutations cs ! i),
                 m_mutations := take (i + 1) (mutations cs)\<rparr>) = Inr left"
    and br: "build ((mutate cs)\<lparr>m_minT := mut_t (mutations cs ! i),
                 m_mutations := drop (i + 1) (mutations cs)\<rparr>) = Inr right"
    unfolding fork_def fl fr by (auto simp: andThen_def split: sum.splits)
  from build_fields[OF bl] show "mutations left = take (i + 1) (mutations cs)"
    "minT left = minT cs" "maxT left = mut_t (mutations cs ! i)" by simp_all
  from build_fields[OF br] show "mutations right = drop (i + 1) (mutations cs)"
    "minT right = mut_t (mutations cs ! i)" "maxT right = maxT cs" by simp_all
qed

lemma boundaries_ok:
  assumes ok: "mutations_ok lo hi ts" and i: "i < length ts"
  shows "lo \<le> (lo # ts) ! i" "(lo # ts) ! i \<le> (lo # ts) ! (i + 1)" "(lo # ts) ! (i + 1) \<le> hi"
proof -
  have s: "sorted (lo # ts)" using ok by (simp add: mutations_ok_def)
  show "lo \<le> (lo # ts) ! i" using ok i by (cases i) (auto simp: mutations_ok_def)
  show "(lo # ts) ! i \<le> (lo # ts) ! (i + 1)"
    using sorted_nth_mono[OF s, of i "i + 1"] i by simp
  have "ts ! i \<le> ts ! (length ts - 1)"
    using ok i by (intro sorted_nth_mono) (auto simp: mutations_ok_def)
  then show "(lo # ts) ! (i + 1) \<le> hi" using ok by (auto simp: mutations_ok_def last_conv_nth)
qed

lemma split_ts_preserves:
  assumes ok: "mutations_ok (m_minT m) (m_maxT m) (map mut_t (m_mutations m))"
    and b: "\<forall>s\<in>set ts. m_minT m \<le> s \<and> s \<le> m_maxT m"
    and r: "split_ts ts m idCounter = Inr (m', idCounter')"
  shows "mutations_ok (m_minT m') (m_maxT m') (map mut_t (m_mutations m'))"
proof (cases "ts = [] \<or> getSvgChar (m_backingCommand m) = SvgM")
  case True
  with r have "m' = m" by (auto simp: split_ts_def)
  with ok show ?thesis by simp
next
  case False
  then have nm: "getSvgChar (m_backingCommand m) \<noteq> SvgM" and tne: "ts \<noteq> []" by simp_all
  have ne: "m_mutations m \<noteq> []" using ok by (simp add: mutations_ok_def)
  have s: "sorted (map mut_t (m_mutations m))" using ok by (simp add: mutations_ok_def)
  have l: "mut_t (last (m_mutations m)) = m_maxT m"
    using ok ne by (simp add: mutations_ok_def last_map)
  have pre: "\<forall>s\<in>set ts. s \<le> mut_t (last (m_mutations m))" using b l by simp
  from split_ts_ok[OF nm tne, of idCounter]
  obtain muts' where
    e: "split_ts ts m idCounter = Inr (m\<lparr>m_mutations := muts'\<rparr>, idCounter + length ts)"
    and p1: "mset (map mut_t muts') = mset (map mut_t (m_mutations m)) + mset ts"
    and p2': "sorted (map mut_t (m_mutations m)) \<longrightarrow> sorted (map mut_t muts')"
    and p3': "sorted (map mut_t (m_mutations m)) \<and> m_mutations m \<noteq> []
                \<and> (\<forall>s\<in>set ts. s \<le> mut_t (last (m_mutations m)))
                \<longrightarrow> mut_t (last muts') = mut_t (last (m_mutations m))"
    and p4: "muts' \<noteq> []"
    by blast
  from p2' s have p2: "sorted (map mut_t muts')" by blast
  from p3' s ne pre have p3: "mut_t (last muts') = mut_t (last (m_mutations m))" by blast
  from e r have m': "m' = m\<lparr>m_mutations := muts'\<rparr>" by simp
  have p3': "last (map mut_t muts') = last (map mut_t (m_mutations m))"
    using p3 p4 ne by (simp add: last_map)
  have "mutations_ok (m_minT m) (m_maxT m) (map mut_t muts')"
    using ok b p2 p1 p3' by (rule mutations_ok_insert)
  then show ?thesis by (simp add: m')
qed

lemma splitAtIndex_preserves:
  assumes ok: "mutations_ok (m_minT m) (m_maxT m) (map mut_t (m_mutations m))"
    and i: "i < length (m_mutations m)"
    and b: "\<forall>s\<in>set ts.
         m_minT m \<le> lerp ((m_minT m # map mut_t (m_mutations m)) ! i)
                         ((m_minT m # map mut_t (m_mutations m)) ! (i + 1)) s
       \<and> lerp ((m_minT m # map mut_t (m_mutations m)) ! i)
              ((m_minT m # map mut_t (m_mutations m)) ! (i + 1)) s \<le> m_maxT m"
    and r: "splitAtIndex i ts m idCounter = Inr (m', idCounter')"
  shows "mutations_ok (m_minT m') (m_maxT m') (map mut_t (m_mutations m'))"
proof -
  let ?T = "m_minT m # map mut_t (m_mutations m)"
  have n: "nth_opt ?T i = Some (?T ! i)" "nth_opt ?T (i + 1) = Some (?T ! (i + 1))"
    using i by (simp_all add: nth_opt_def)
  have r': "split_ts (map (\<lambda>s. lerp (?T ! i) (?T ! (i + 1)) s) ts) m idCounter = Inr (m', idCounter')"
    using r n by (simp add: splitAtIndex_def Let_def)
  have "\<forall>v\<in>set (map (\<lambda>s. lerp (?T ! i) (?T ! (i + 1)) s) ts). m_minT m \<le> v \<and> v \<le> m_maxT m"
    using b by auto
  from split_ts_preserves[OF ok this r'] show ?thesis .
qed

lemma splitInHalfAtIndex_preserves:
  assumes ok: "mutations_ok (m_minT m) (m_maxT m) (map mut_t (m_mutations m))"
    and i: "i < length (m_mutations m)"
    and s: "s = findTimeByDistance (m_calculator m)
            (lerp ((m_minT m # map mut_t (m_mutations m)) ! i)
                  ((m_minT m # map mut_t (m_mutations m)) ! (i + 1)) (1 / 2))"
      "m_minT m \<le> s" "s \<le> m_maxT m"
    and r: "splitInHalfAtIndex i m idCounter = Inr (m', idCounter')"
  shows "mutations_ok (m_minT m') (m_maxT m') (map mut_t (m_mutations m'))"
proof -
  let ?T = "m_minT m # map mut_t (m_mutations m)"
  have n: "nth_opt ?T i = Some (?T ! i)" "nth_opt ?T (i + 1) = Some (?T ! (i + 1))"
    using i by (simp_all add: nth_opt_def)
  have r': "split_ts [s] m idCounter = Inr (m', idCounter')"
    using r n s(1) by (simp add: splitInHalfAtIndex_def Let_def)
  from split_ts_preserves[OF ok _ r'] s(2,3) show ?thesis by simp
qed

lemma reachable_ok:
  "reachable newCalculator wasCut cs \<Longrightarrow>
     mutations_ok (minT cs) (maxT cs) (map mut_t (mutations cs))"
proof (induction rule: reachable.induct)
  case (reach_new backing)
  show ?case by (simp add: new_CommandState_def mutations_ok_new)
next
  case (reach_splitAtIndex wasCut cs splitIdx ts idCounter m idCounter' cs')
  from splitAtIndex_preserves[of "mutate cs" splitIdx ts idCounter m idCounter'] reach_splitAtIndex
  have "mutations_ok (m_minT m) (m_maxT m) (map mut_t (m_mutations m))" by simp
  with build_fields[OF reach_splitAtIndex.hyps(5)] show ?case by simp
next
  case (reach_splitInHalfAtIndex wasCut cs splitIdx s idCounter m idCounter' cs')
  from splitInHalfAtIndex_preserves[of "mutate cs" splitIdx s idCounter m idCounter']
    reach_splitInHalfAtIndex
  have "mutations_ok (m_minT m) (m_maxT m) (map mut_t (m_mutations m))" by simp
  with build_fields[OF reach_splitInHalfAtIndex.hyps(7)] show ?case by simp
next
  case (reach_unsplitAtIndex wasCut cs splitIdx cs')
  from mutations_ok_unsplit[OF reach_unsplitAtIndex.IH, of splitIdx] reach_unsplitAtIndex.hyps(2)
  have "mutations_ok (minT cs) (maxT cs)
      (map mut_t (take splitIdx (mutations cs) @ drop (splitIdx + 1) (mutations cs)))"
    by (simp add: take_map drop_map)
  with build_fields[OF reach_unsplitAtIndex.hyps(3)] show ?case
    by (simp add: unsplitAtIndex_def)
next
  case (reach_convertAtIndex wasCut cs splitIdx svgChar m cs')
  from reach_convertAtIndex.hyps(2)
  have "map mut_t (m_mutations m) = map mut_t (mutations cs) \<and> m_minT m = minT cs \<and> m_maxT m = maxT cs"
    by (auto simp: convertAtIndex_def nth_opt_def map_update list_update_same_conv split: if_splits)
  with build_fields[OF reach_convertAtIndex.hyps(3)] reach_convertAtIndex.IH show ?case by simp
next
  case (reach_unconvertSubpath wasCut cs cs')
  have "m_minT (unconvertSubpath (mutate cs)) = minT cs" "m_maxT (unconvertSubpath (mutate cs)) = maxT cs"
    by (simp_all add: unconvertSubpath_def Let_def)
  with build_fields[OF reach_unconvertSubpath.hyps(2)] reach_unconvertSubpath.IH
    map_t_unconvert[of "mutate cs"]
  show ?case by simp
next
  case (reach_fork_left wasCut cs splitIdx left right)
  note f = fork_fields[OF reach_fork_left.hyps(2)]
  from mutations_ok_forkLeft[OF reach_fork_left.IH, of splitIdx] f
  show ?case by (simp add: take_map)
next
  case (reach_fork_right wasCut cs splitIdx left right)
  note f = fork_fields[OF reach_fork_right.hyps(2)]
  from mutations_ok_forkRight[OF reach_fork_right.IH, of splitIdx] f reach_fork_right.hyps(3)
  show ?case by (simp add: drop_map)
next
  case (reach_merge wasCut a wasCut' b cs')
  define m' where "m' = fst (merge b (mutate a))"
  have f: "m_minT m' = min (minT a) (minT b)" "m_maxT m' = max (maxT a) (maxT b)"
    "m_mutations m' = fst (merge_loop (set (map mut_id (mutations a))) (mutations b) (mutations a) [])"
    by (simp_all add: m'_def merge_def Let_def split_beta)
  have "sorted (map mut_t (mutations a))" using reach_merge.IH(1) by (simp add: mutations_ok_def)
  then have s: "sorted (map mut_t (m_mutations m'))"
    unfolding f(3) by (rule merge_loop_sorted)
  have "mset (m_mutations m') = mset (mutations a) + mset (mutations b)"
    unfolding f(3) by (rule merge_loop_mset)
  then have ms: "mset (map mut_t (m_mutations m'))
      = mset (map mut_t (mutations a)) + mset (map mut_t (mutations b))"
    by (metis image_mset_union mset_map)
  from mutations_ok_merge[OF reach_merge.IH(1) reach_merge.IH(2) s ms]
    build_fields[OF reach_merge.hyps(3)] f(1,2)
  show ?case by (simp add: m'_def)
next
  case (reach_revert wasCut cs m cs')
  from reach_revert.hyps(2)
  have "map mut_t (m_mutations m) = [maxT cs] \<and> m_minT m = minT cs \<and> m_maxT m = maxT cs"
    by (auto simp: revert_def split: if_splits)
  with build_fields[OF reach_revert.hyps(3)] mutations_ok_revert[OF reach_revert.IH]
  show ?case by simp
qed

lemma reachable_uncut:
  "reachable newCalculator wasCut cs \<Longrightarrow> wasCut \<or> maxT cs = 1"
proof (induction rule: reachable.induct)
  case (reach_new backing)
  show ?case by (simp add: new_CommandState_def)
next
  case (reach_splitAtIndex wasCut cs splitIdx ts idCounter m idCounter' cs')
  from reach_splitAtIndex.hyps(4) have "m_maxT m = maxT cs"
    by (auto simp: splitAtIndex_def split_ts_def Let_def split: option.splits if_splits prod.splits)
  with build_fields[OF reach_splitAtIndex.hyps(5)] reach_splitAtIndex.IH show ?case by simp
next
  case (reach_splitInHalfAtIndex wasCut cs splitIdx s idCounter m idCounter' cs')
  from reach_splitInHalfAtIndex.hyps(6) have "m_maxT m = maxT cs"
    by (auto simp: splitInHalfAtIndex_def split_ts_def Let_def
        split: option.splits if_splits prod.splits)
  with build_fields[OF reach_splitInHalfAtIndex.hyps(7)] reach_splitInHalfAtIndex.IH
  show ?case by simp
next
  case (reach_unsplitAtIndex wasCut cs splitIdx cs')
  from build_fields[OF reach_unsplitAtIndex.hyps(3)] reach_unsplitAtIndex.IH
  show ?case by (simp add: unsplitAtIndex_def)
next
  case (reach_convertAtIndex wasCut cs splitIdx svgChar m cs')
  from reach_convertAtIndex.hyps(2) have "m_maxT m = maxT cs"
    by (auto simp: convertAtIndex_def split: option.splits)
  with build_fields[OF reach_convertAtIndex.hyps(3)] reach_convertAtIndex.IH show ?case by simp
next
  case (reach_unconvertSubpath wasCut cs cs')
  from build_fields[OF reach_unconvertSubpath.hyps(2)] reach_unconvertSubpath.IH
  show ?case by (simp add: unconvertSubpath_def Let_def)
next
  case (reach_fork_left wasCut cs splitIdx left right)
  show ?case by simp
next
  case (reach_fork_right wasCut cs splitIdx left right)
  from fork_fields(7)[OF reach_fork_right.hyps(2)] reach_fork_right.IH show ?case by simp
next
  case (reach_merge wasCut a wasCut' b cs')
  have le: "maxT a \<le> 1" "maxT b \<le> 1"
    using reachable_ok[OF reach_merge.hyps(1)] reachable_ok[OF reach_merge.hyps(2)]
    by (simp_all add: mutations_ok_def)
  have "m_maxT (fst (merge b (mutate a))) = max (maxT a) (maxT b)"
    by (simp add: merge_def Let_def split_beta)
  with build_fields[OF reach_merge.hyps(3)] have m: "maxT cs' = max (maxT a) (maxT b)" by simp
  from reach_merge.IH le show ?case unfolding m by (auto simp: max_def)
next
  case (reach_revert wasCut cs m cs')
  from reach_revert.hyps(2) have "m_maxT m = maxT cs"
    by (auto simp: revert_def split: if_splits)
  with build_fields[OF reach_revert.hyps(3)] reach_revert.IH show ?case by simp
qed

declare mutate_fields [simp del]

section \<open>The example states are reachable\<close>

lemma closeState_split:
  "splitAtIndex 0 [1 / 2] (mutate closeState) 100
     = Inr ((mutate closeState)\<lparr>m_mutations :=
              [\<lparr>mut_id = 101, mut_t = 1 / 2, mut_svgChar = Some SvgL\<rparr>,
               \<lparr>mut_id = 3, mut_t = 1, mut_svgChar = Some SvgZ\<rparr>]\<rparr>, 101)"
  by (simp add: splitAtIndex_def split_ts_def nth_opt_def uniqueId_def Let_def lerp_unit_half
      sortedIndexBy_def sortedIndex_def sortedIndexLoop_stop sortedIndexLoop_step
      splice_insert_def forceLines_def forceLine_def
      mutate_def closeState_def new_CommandState_def closeCommand_def)

lemma closeSplitState_built:
  "build ((mutate closeState)\<lparr>m_mutations :=
              [\<lparr>mut_id = 101, mut_t = 1 / 2, mut_svgChar = Some SvgL\<rparr>,
               \<lparr>mut_id = 3, mut_t = 1, mut_svgChar = Some SvgZ\<rparr>]\<rparr>) = Inr closeSplitState"
  by (simp add: build_def mutate_def closeState_def closeSplitState_def new_CommandState_def
      pointCalculatorOf_def closeCommand_def PointCalculator_toCommand_def)

lemma reachable_closeSplitState: "reachable pointCalculatorOf False closeSplitState"
proof -
  have "reachable pointCalculatorOf False closeState"
    unfolding closeState_def by (rule reach_new)
  moreover have "0 < length (mutations closeState)"
    by (simp add: closeState_def new_CommandState_def)
  moreover have "\<forall>s\<in>set [1 / 2 :: rat].
         minT closeState \<le> lerp ((minT closeState # map mut_t (mutations closeState)) ! 0)
                         ((minT closeState # map mut_t (mutations closeState)) ! (0 + 1)) s
       \<and> lerp ((minT closeState # map mut_t (mutations closeState)) ! 0)
              ((minT closeState # map mut_t (mutations closeState)) ! (0 + 1)) s \<le> maxT closeState"
    by (simp add: closeState_def new_CommandState_def lerp_unit_half)
  ultimately show ?thesis
    using closeState_split closeSplitState_built by (rule reach_splitAtIndex)
qed

lemma closeSplitState_fork: "fork closeSplitState 0 = Inr (closeLeftState, closeRightState)"
  by (simp add: fork_def andThen_def forkLeft_def forkRight_def nth_opt_def build_def mutate_def
      closeSplitState_def closeLeftState_def closeRightState_def
      pointCalculatorOf_def closeCommand_def PointCalculator_toCommand_def)

lemma reachable_closeLeftState: "reachable pointCalculatorOf True closeLeftState"
  using reachable_closeSplitState closeSplitState_fork by (rule reach_fork_left)

lemma reachable_closeConvertedState: "reachable pointCalculatorOf False closeConvertedState"
proof -
  have c: "convertAtIndex 0 SvgC (mutate closeSplitState)
      = Inr ((mutate closeSplitState)\<lparr>m_mutations :=
              [\<lparr>mut_id = 101, mut_t = 1 / 2, mut_svgChar = Some SvgC\<rparr>,
               \<lparr>mut_id = 3, mut_t = 1, mut_svgChar = Some SvgZ\<rparr>]\<rparr>)"
    by (simp add: convertAtIndex_def nth_opt_def mutate_def closeSplitState_def)
  have b: "build ((mutate closeSplitState)\<lparr>m_mutations :=
              [\<lparr>mut_id = 101, mut_t = 1 / 2, mut_svgChar = Some SvgC\<rparr>,
               \<lparr>mut_id = 3, mut_t = 1, mut_svgChar = Some SvgZ\<rparr>]\<rparr>) = Inr closeConvertedState"
    by (simp add: build_def mutate_def closeSplitState_def closeConvertedState_def
      pointCalculatorOf_def closeCommand_def PointCalculator_toCommand_def)
  from reachable_closeSplitState c b show ?thesis by (rule reach_convertAtIndex)
qed

lemma lineState_split:
  "splitAtIndex 0 [1 / 2] (mutate lineState) 100
     = Inr ((mutate lineState)\<lparr>m_mutations :=
              [\<lparr>mut_id = 101, mut_t = 1 / 2, mut_svgChar = Some SvgL\<rparr>,
               \<lparr>mut_id = 2, mut_t = 1, mut_svgChar = Some SvgL\<rparr>]\<rparr>, 101)"
  by (simp add: splitAtIndex_def split_ts_def nth_opt_def uniqueId_def Let_def lerp_unit_half
      sortedIndexBy_def sortedIndex_def sortedIndexLoop_stop sortedIndexLoop_step
      splice_insert_def forceLines_def forceLine_def
      mutate_def lineState_def new_CommandState_def lineCommand_def)

lemma lineSplitState_built:
  "build ((mutate lineState)\<lparr>m_mutations :=
              [\<lparr>mut_id = 101, mut_t = 1 / 2, mut_svgChar = Some SvgL\<rparr>,
               \<lparr>mut_id = 2, mut_t = 1, mut_svgChar = Some SvgL\<rparr>]\<rparr>) = Inr lineSplitState"
  by (simp add: build_def mutate_def lineState_def lineSplitState_def new_CommandState_def
      pointCalculatorOf_def lineCommand_def PointCalculator_toCommand_def)

lemma shiftedPath_find0:
  "findCommandStateInfo 0 0 shiftedPath = Inr (lineState, 0, 1, 0)"
  by (simp add: findCommandStateInfo_def lookupSubPath_def shiftedPath_def findSubPathState_def
      flattenSubPathStates_def nth_opt_def numCommandsInSubPath_def getCommands_def Let_def
      moveState_def lineState_def new_CommandState_def)

lemma shiftedPath_find1:
  "findCommandStateInfo 0 1 shiftedPath = Inr (lineState, 0, 2, 0)"
  by (simp add: findCommandStateInfo_def lookupSubPath_def shiftedPath_def findSubPathState_def
      flattenSubPathStates_def nth_opt_def numCommandsInSubPath_def getCommands_def Let_def
      moveState_def lineState_def new_CommandState_def)

lemma shiftedPath_leaf:
  "findSubPathState (subPathStateMap shiftedPath) 0
     = Some (SubPathState [moveState, lineState, lineState] False 1 25 [])"
  by (simp add: shiftedPath_def findSubPathState_def flattenSubPathStates_def nth_opt_def)

lemma shiftedPath_split:
  "splitCommand 0 cmdIdx [1 / 2] shiftedPath 100 =
     (case findCommandStateInfo 0 cmdIdx shiftedPath of
        Inl e \<Rightarrow> Inl e
      | Inr (targetCm, cmsIdx, cmIdx, splitIdx) \<Rightarrow>
          (case findSubPathState (subPathStateMap shiftedPath) cmsIdx of
             None \<Rightarrow> Inl TypeError
           | Some sps \<Rightarrow>
               (case splitAtIndex (toIndex (length (mutations targetCm) + 1) splitIdx) [1 / 2]
                        (mutate targetCm) 100 of
                  Inl e \<Rightarrow> Inl e
                | Inr (m, idCounter') \<Rightarrow>
                    (case build m of
                       Inl e \<Rightarrow> Inl e
                     | Inr cs \<Rightarrow>
                         Inr (setSubPathState
                                (setCommandState cs cmIdx
                                   (setShiftOffset
                                      (getUpdatedShiftOffsetsAfterSplit sps cmIdx 1) sps))
                                cmsIdx shiftedPath,
                              idCounter')))))"
  by (simp add: splitCommand_def Let_def split: sum.splits option.splits)

lemma lineSplitState_fork: "fork lineSplitState 0 = Inr (lineLeftState, lineRightState)"
  by (simp add: fork_def andThen_def forkLeft_def forkRight_def nth_opt_def build_def mutate_def
      lineSplitState_def lineLeftState_def lineRightState_def
      pointCalculatorOf_def lineCommand_def PointCalculator_toCommand_def)

lemma strokePath_find:
  "findCommandStateInfo 0 2 strokePath = Inr (lineSplitState, 0, 2, 0)"
  by (simp add: findCommandStateInfo_def lookupSubPath_def strokePath_def findSubPathState_def
      flattenSubPathStates_def nth_opt_def numCommandsInSubPath_def getCommands_def Let_def
      moveState_def lineState_def lineSplitState_def new_CommandState_def)

lemma strokePath_leaf:
  "findSubPathState (subPathStateMap strokePath) 0
     = Some (SubPathState [moveState, lineState, lineSplitState] False 0 26 [])"
  by (simp add: strokePath_def findSubPathState_def flattenSubPathStates_def nth_opt_def)

lemma lineState_splitInHalf:
  "splitInHalfAtIndex 0 (mutate lineState) 100
     = Inr ((mutate lineState)\<lparr>m_mutations :=
              [\<lparr>mut_id = 101, mut_t = 1 / 2, mut_svgChar = Some SvgL\<rparr>,
               \<lparr>mut_id = 2, mut_t = 1, mut_svgChar = Some SvgL\<rparr>]\<rparr>, 101)"
  by (simp add: splitInHalfAtIndex_def split_ts_def nth_opt_def uniqueId_def Let_def lerp_unit_half
      sortedIndexBy_def sortedIndex_def sortedIndexLoop_stop sortedIndexLoop_step
      splice_insert_def forceLines_def forceLine_def
      mutate_def lineState_def new_CommandState_def lineCommand_def pointCalculatorOf_def)

lemma shiftedPath_splitInHalf:
  "splitCommandInHalf 0 cmdIdx shiftedPath 100 =
     (case findCommandStateInfo 0 cmdIdx shiftedPath of
        Inl e \<Rightarrow> Inl e
      | Inr (targetCm, cmsIdx, cmIdx, splitIdx) \<Rightarrow>
          (case findSubPathState (subPathStateMap shiftedPath) cmsIdx of
             None \<Rightarrow> Inl TypeError
           | Some sps \<Rightarrow>
               (case splitInHalfAtIndex (toIndex (length (mutations targetCm) + 1) splitIdx)
                        (mutate targetCm) 100 of
                  Inl e \<Rightarrow> Inl e
                | Inr (m, idCounter') \<Rightarrow>
                    (case build m of
                       Inl e \<Rightarrow> Inl e
                     | Inr cs \<Rightarrow>
                         Inr (setSubPathState
                                (setCommandState cs cmIdx
                                   (setShiftOffset
                                      (getUpdatedShiftOffsetsAfterSplit sps cmIdx 1) sps))
                                cmsIdx shiftedPath,
                              idCounter')))))"
  by (simp add: splitCommandInHalf_def Let_def split: sum.splits option.splits)





lemma closeTwice_convert:
  "andThen (convertAtIndex 0 SvgZ (mutate closeSplitState)) build = Inr closeTwiceState"
  by (simp add: andThen_def convertAtIndex_def nth_opt_def build_def mutate_def
      closeSplitState_def closeTwiceState_def pointCalculatorOf_def closeCommand_def
      PointCalculator_toCommand_def)





section \<open>Linking the points of consecutive commands\<close>

lemma getStart_setFirstPoint:
  "getStart (cmd\<lparr>getPoints := setFirstPoint p (getPoints cmd)\<rparr>) = p"
  by (simp add: getStart_def setFirstPoint_def split: list.splits)

lemma relinkRest_length: "length (relinkRest prev cmds) = length cmds"
  by (induction cmds arbitrary: prev) (simp_all add: Let_def)

lemma relinkRest_linked:
  "i < length cmds \<Longrightarrow>
   getStart (relinkRest prev cmds ! i) = getEnd ((prev # relinkRest prev cmds) ! i)"
proof (induction cmds arbitrary: prev i)
  case Nil
  then show ?case by simp
next
  case (Cons cmd rest)
  show ?case
  proof (cases i)
    case 0
    then show ?thesis by (simp add: Let_def getStart_setFirstPoint)
  next
    case (Suc j)
    with Cons.prems have "j < length rest" by simp
    from Cons.IH[OF this] Suc show ?thesis by (simp add: Let_def)
  qed
qed

lemma relink_linked:
  shows "relink cmds \<noteq> [] \<longrightarrow> getStart (hd (relink cmds)) = None"
    and "0 < i \<and> i < length (relink cmds) \<longrightarrow>
           getStart (relink cmds ! i) = getEnd (relink cmds ! (i - 1))"
    and "length (relink cmds) = length cmds"
proof -
  show "relink cmds \<noteq> [] \<longrightarrow> getStart (hd (relink cmds)) = None"
  proof (cases cmds)
    case Nil
    then show ?thesis by (simp add: relink_def)
  next
    case (Cons cmd rest)
    show ?thesis
    proof (cases "getStart cmd = None")
      case True
      then show ?thesis by (simp add: relink_def Cons Let_def)
    next
      case False
      then have "hd (relink cmds) = cmd\<lparr>getPoints := [None, getEnd cmd]\<rparr>"
        by (simp add: relink_def Cons Let_def)
      then show ?thesis by (simp add: getStart_def)
    qed
  qed
  show "length (relink cmds) = length cmds"
    by (cases cmds) (simp_all add: relink_def Let_def relinkRest_length)
  show "0 < i \<and> i < length (relink cmds) \<longrightarrow>
           getStart (relink cmds ! i) = getEnd (relink cmds ! (i - 1))"
  proof (cases cmds)
    case Nil
    then show ?thesis by (simp add: relink_def)
  next
    case (Cons cmd rest)
    define cmd' where "cmd' = (if getStart cmd \<noteq> None then cmd\<lparr>getPoints := [None, getEnd cmd]\<rparr>
                       else cmd)"
    have r: "relink cmds = cmd' # relinkRest cmd' rest"
      by (simp add: relink_def Cons Let_def cmd'_def)
    show ?thesis
    proof (intro impI)
      assume a: "0 < i \<and> i < length (relink cmds)"
      then obtain j where j: "i = Suc j" by (cases i) auto
      with a r have "j < length rest" by (simp add: relinkRest_length)
      from relinkRest_linked[OF this, of cmd'] show
        "getStart (relink cmds ! i) = getEnd (relink cmds ! (i - 1))"
        by (simp add: r j)
    qed
  qed
qed

section \<open>Replacing a leaf of the forest\<close>

lemma flatten_node_simp:
  "flattenSubPathState node =
     (if splitSubPaths node = [] then [node] else concat (map flattenSubPathState (splitSubPaths node)))"
  by (cases node) simp

lemma replaceAt_append_left:
  "j < length A \<Longrightarrow> replaceAt j new (A @ B) = replaceAt j new A @ B"
  by (simp add: replaceAt_def)

lemma replaceAt_append_right:
  "length A \<le> j \<Longrightarrow> replaceAt j new (A @ B) = A @ replaceAt (j - length A) new B"
  by (simp add: replaceAt_def Suc_diff_le)

lemma setStateFn_flatten:
  "flattenSubPathState (fst (setStateFn st k node c))
     = (if c \<le> k \<and> k < c + length (flattenSubPathState node)
        then replaceAt (k - c) (flattenSubPathState st) (flattenSubPathState node)
        else flattenSubPathState node)
   \<and> snd (setStateFn st k node c) = c + length (flattenSubPathState node)"
  "concat (map flattenSubPathState (fst (setStateFn_list st k nodes c)))
     = (if c \<le> k \<and> k < c + length (concat (map flattenSubPathState nodes))
        then replaceAt (k - c) (flattenSubPathState st) (concat (map flattenSubPathState nodes))
        else concat (map flattenSubPathState nodes))
   \<and> snd (setStateFn_list st k nodes c) = c + length (concat (map flattenSubPathState nodes))
   \<and> length (fst (setStateFn_list st k nodes c)) = length nodes"
proof (induction st k node c and st k nodes c rule: setStateFn_setStateFn_list.induct)
  case (1 state cmsIdx css reversed offset ident subs counter)
  show ?case
  proof (cases "subs = []")
    case True
    then show ?thesis by (auto simp: replaceAt_def)
  next
    case False
    obtain subs' counter' where r: "setStateFn_list state cmsIdx subs counter = (subs', counter')"
      by (cases "setStateFn_list state cmsIdx subs counter")
    from "1.IH"[OF False] r have
      ih: "concat (map flattenSubPathState subs')
     = (if counter \<le> cmsIdx \<and> cmsIdx < counter + length (concat (map flattenSubPathState subs))
        then replaceAt (cmsIdx - counter) (flattenSubPathState state) (concat (map flattenSubPathState subs))
        else concat (map flattenSubPathState subs))"
      "counter' = counter + length (concat (map flattenSubPathState subs))"
      "length subs' = length subs"
      by simp_all
    from ih(3) False have ne: "subs' \<noteq> []" by auto
    show ?thesis using False ne r ih(1,2) by simp
  qed
next
  case (2 state cmsIdx counter)
  show ?case by auto
next
  case (3 state cmsIdx node nodes counter)
  obtain node' counter1 where r1: "setStateFn state cmsIdx node counter = (node', counter1)"
    by (cases "setStateFn state cmsIdx node counter")
  obtain nodes' counter2 where r2: "setStateFn_list state cmsIdx nodes counter1 = (nodes', counter2)"
    by (cases "setStateFn_list state cmsIdx nodes counter1")
  let ?A = "flattenSubPathState node"
  let ?B = "concat (map flattenSubPathState nodes)"
  from "3.IH"(1) r1 have
    a: "flattenSubPathState node'
     = (if counter \<le> cmsIdx \<and> cmsIdx < counter + length ?A
        then replaceAt (cmsIdx - counter) (flattenSubPathState state) ?A else ?A)"
    and c1: "counter1 = counter + length ?A"
    by simp_all
  from "3.IH"(2)[OF r1[symmetric]] r2 have
    b: "concat (map flattenSubPathState nodes')
     = (if counter1 \<le> cmsIdx \<and> cmsIdx < counter1 + length ?B
        then replaceAt (cmsIdx - counter1) (flattenSubPathState state) ?B else ?B)"
    and c2: "counter2 = counter1 + length ?B"
    and l: "length nodes' = length nodes"
    by simp_all
  have res: "setStateFn_list state cmsIdx (node # nodes) counter = (node' # nodes', counter2)"
    using r1 r2 by simp
  have "flattenSubPathState node' @ concat (map flattenSubPathState nodes')
      = (if counter \<le> cmsIdx \<and> cmsIdx < counter + length (?A @ ?B)
         then replaceAt (cmsIdx - counter) (flattenSubPathState state) (?A @ ?B) else ?A @ ?B)"
  proof (cases "counter \<le> cmsIdx \<and> cmsIdx < counter + length ?A")
    case True
    then have n2: "\<not> (counter1 \<le> cmsIdx \<and> cmsIdx < counter1 + length ?B)" using c1 by simp
    have j: "cmsIdx - counter < length ?A" using True by auto
    have a': "flattenSubPathState node'
        = replaceAt (cmsIdx - counter) (flattenSubPathState state) ?A"
      unfolding a by (rule if_P[OF True])
    have b': "concat (map flattenSubPathState nodes') = ?B"
      unfolding b by (rule if_not_P[OF n2])
    have t: "counter \<le> cmsIdx \<and> cmsIdx < counter + length (?A @ ?B)" using True by simp
    show ?thesis
      unfolding a' b' if_P[OF t] replaceAt_append_left[OF j] ..
  next
    case False
    have a': "flattenSubPathState node' = ?A" unfolding a by (rule if_not_P[OF False])
    show ?thesis
    proof (cases "counter1 \<le> cmsIdx \<and> cmsIdx < counter1 + length ?B")
      case True
      have j: "length ?A \<le> cmsIdx - counter" using True c1 by auto
      have e: "cmsIdx - counter1 = cmsIdx - counter - length ?A" using c1 by simp
      have t: "counter \<le> cmsIdx \<and> cmsIdx < counter + length (?A @ ?B)"
        using True c1 by auto
      have b': "concat (map flattenSubPathState nodes')
          = replaceAt (cmsIdx - counter - length ?A) (flattenSubPathState state) ?B"
        unfolding b e[symmetric] by (rule if_P[OF True])
      show ?thesis
        unfolding a' b' if_P[OF t] replaceAt_append_right[OF j] ..
    next
      case F2: False
      have b': "concat (map flattenSubPathState nodes') = ?B"
        unfolding b by (rule if_not_P[OF F2])
      have t: "\<not> (counter \<le> cmsIdx \<and> cmsIdx < counter + length (?A @ ?B))"
        using False F2 c1 by auto
      show ?thesis
        unfolding a' b' if_not_P[OF t] ..
    qed
  qed
  then show ?case using res c1 c2 l by simp
qed

lemma flatten_leaves:
  "x \<in> set (flattenSubPathState node) \<Longrightarrow> splitSubPaths x = []"
  by (induction node arbitrary: x rule: flattenSubPathState.induct) (auto split: if_splits)

lemma flatten_leaf: "splitSubPaths node = [] \<Longrightarrow> flattenSubPathState node = [node]"
  by (cases node) simp

lemma flattenSubPathStates_leaves:
  "x \<in> set (flattenSubPathStates nodes) \<Longrightarrow> splitSubPaths x = []"
  by (auto simp: flattenSubPathStates_def dest: flatten_leaves)

lemma setSubPathState_flatten:
  "flattenSubPathStates (subPathStateMap (setSubPathState st k pm))
     = (if k < length (flattenSubPathStates (subPathStateMap pm))
        then replaceAt k (flattenSubPathState st) (flattenSubPathStates (subPathStateMap pm))
        else flattenSubPathStates (subPathStateMap pm))"
  using setStateFn_flatten(2)[of st k "subPathStateMap pm" 0]
  by (simp add: setSubPathState_def flattenSubPathStates_def)

lemma setSubPathState_fields [simp]:
  "subPathOrdering (setSubPathState st k pm) = subPathOrdering pm"
  "numCollapsingSubPaths (setSubPathState st k pm) = numCollapsingSubPaths pm"
  by (simp_all add: setSubPathState_def)

lemma replaceAt_single: "k < length F \<Longrightarrow> replaceAt k [x] F = F[k := x]"
  by (simp add: replaceAt_def upd_conv_take_nth_drop)

lemma setSubPathState_leaf:
  assumes "k < length (flattenSubPathStates (subPathStateMap pm))" "splitSubPaths st = []"
  shows "flattenSubPathStates (subPathStateMap (setSubPathState st k pm))
           = (flattenSubPathStates (subPathStateMap pm))[k := st]"
  using assms by (simp add: setSubPathState_flatten flatten_leaf replaceAt_single)

lemma lookupSubPath_Inr:
  assumes "lookupSubPath pm subIdx = Inr (cmsIdx, sps)"
  shows "subIdx < length (subPathOrdering pm)" "subPathOrdering pm ! subIdx = cmsIdx"
    "cmsIdx < length (flattenSubPathStates (subPathStateMap pm))"
    "flattenSubPathStates (subPathStateMap pm) ! cmsIdx = sps"
    "findSubPathState (subPathStateMap pm) cmsIdx = Some sps"
    "splitSubPaths sps = []"
proof -
  from assms show a: "subIdx < length (subPathOrdering pm)" "subPathOrdering pm ! subIdx = cmsIdx"
    "cmsIdx < length (flattenSubPathStates (subPathStateMap pm))"
    "flattenSubPathStates (subPathStateMap pm) ! cmsIdx = sps"
    by (auto simp: lookupSubPath_def findSubPathState_def nth_opt_def
        split: option.splits if_splits)
  then show "findSubPathState (subPathStateMap pm) cmsIdx = Some sps"
    by (simp add: findSubPathState_def nth_opt_def)
  from a have "sps \<in> set (flattenSubPathStates (subPathStateMap pm))" by (metis nth_mem)
  then show "splitSubPaths sps = []" by (rule flattenSubPathStates_leaves)
qed

section \<open>Facts about the path operations\<close>

lemma findCommandStateLoop_Some:
  "findCommandStateLoop css cmdIdx counter idx0 = Some (cm, cmIdx, splitIdx) \<Longrightarrow>
     idx0 \<le> cmIdx \<and> cmIdx - idx0 < length css \<and> css ! (cmIdx - idx0) = cm
     \<and> splitIdx < int (length (getCommands cm))
     \<and> (counter \<le> cmdIdx \<longrightarrow> 0 \<le> splitIdx)"
proof (induction css arbitrary: counter idx0)
  case Nil
  then show ?case by simp
next
  case (Cons c rest)
  show ?case
  proof (cases "counter + int (length (getCommands c)) > cmdIdx")
    case True
    with Cons.prems show ?thesis by auto
  next
    case False
    with Cons.prems have
      "findCommandStateLoop rest cmdIdx (counter + int (length (getCommands c))) (idx0 + 1)
         = Some (cm, cmIdx, splitIdx)" by simp
    from Cons.IH[OF this] False show ?thesis
      by (auto simp: Suc_diff_le)
  qed
qed

lemma findCommandStateInfo_Inr:
  assumes "findCommandStateInfo subIdx cmdIdx pm = Inr (targetCm, cmsIdx, cmIdx, splitIdx)"
  shows "\<exists>sps. lookupSubPath pm subIdx = Inr (cmsIdx, sps)
           \<and> cmIdx < length (commandStates sps) \<and> commandStates sps ! cmIdx = targetCm
           \<and> splitIdx < int (length (getCommands targetCm))"
proof -
  from assms obtain c sps where l: "lookupSubPath pm subIdx = Inr (c, sps)"
    by (cases "lookupSubPath pm subIdx") (auto simp: findCommandStateInfo_def)
  from assms l obtain x where
    f: "findCommandStateLoop (commandStates sps) x 0 0 = Some (targetCm, cmIdx, splitIdx)"
    and c: "c = cmsIdx"
    by (auto simp: findCommandStateInfo_def Let_def split: option.splits)
  from findCommandStateLoop_Some[OF f] l c show ?thesis by auto
qed

lemma split_loop_length:
  "split_loop cs ks ts muts idCounter = (muts', idCounter') \<Longrightarrow>
     length muts' = length muts + length ts"
  using split_loop_ok[of cs ks ts muts idCounter] by auto

lemma split_ts_length:
  assumes "split_ts ts m idCounter = Inr (m', idCounter')"
    and "getSvgChar (m_backingCommand m) \<noteq> SvgM"
  shows "length (m_mutations m') = length (m_mutations m) + length ts"
proof (cases "ts = []")
  case True
  with assms show ?thesis by (simp add: split_ts_def)
next
  case False
  with assms obtain muts where
    l: "split_loop (map mut_t (m_mutations m)) (map mut_svgChar (m_mutations m)) ts
          (m_mutations m) idCounter = (muts, idCounter')"
    and m': "m' = m\<lparr>m_mutations := forceLines muts\<rparr>"
    by (auto simp: split_ts_def Let_def split: prod.splits)
  from split_loop_length[OF l] m' show ?thesis by (simp add: length_forceLines)
qed

lemma splitAtIndex_length:
  assumes "splitAtIndex i ts m idCounter = Inr (m', idCounter')"
    and "getSvgChar (m_backingCommand m) \<noteq> SvgM"
  shows "length (m_mutations m') = length (m_mutations m) + length ts"
proof -
  let ?T = "m_minT m # map mut_t (m_mutations m)"
  show ?thesis
  proof (cases "\<exists>a b. nth_opt ?T i = Some a \<and> nth_opt ?T (i + 1) = Some b")
    case True
    then obtain a b where "nth_opt ?T i = Some a" "nth_opt ?T (i + 1) = Some b" by blast
    with assms(1) have "split_ts (map (\<lambda>s. lerp a b s) ts) m idCounter = Inr (m', idCounter')"
      by (simp add: splitAtIndex_def Let_def)
    from split_ts_length[OF this assms(2)] show ?thesis by simp
  next
    case False
    with assms have "ts = [] \<and> m' = m"
      by (auto simp: splitAtIndex_def Let_def split: option.splits if_splits)
    then show ?thesis by simp
  qed
qed

lemma splitInHalfAtIndex_length:
  assumes "splitInHalfAtIndex i m idCounter = Inr (m', idCounter')"
    and "getSvgChar (m_backingCommand m) \<noteq> SvgM"
  shows "length (m_mutations m') = length (m_mutations m) + 1"
proof -
  let ?T = "m_minT m # map mut_t (m_mutations m)"
  show ?thesis
  proof (cases "\<exists>a b. nth_opt ?T i = Some a \<and> nth_opt ?T (i + 1) = Some b")
    case True
    then obtain a b where "nth_opt ?T i = Some a" "nth_opt ?T (i + 1) = Some b" by blast
    with assms(1) have
      "split_ts [findTimeByDistance (m_calculator m) (lerp a b (1 / 2))] m idCounter
         = Inr (m', idCounter')"
      by (simp add: splitInHalfAtIndex_def Let_def)
    from split_ts_length[OF this assms(2)] show ?thesis by simp
  next
    case False
    with assms have False
      by (auto simp: splitInHalfAtIndex_def Let_def split: option.splits if_splits)
    then show ?thesis ..
  qed
qed

lemma build_loop_length:
  "build_loop calc p muts = Inr cmds \<Longrightarrow> length cmds = length muts"
  by (induction muts arbitrary: p cmds) (auto simp: Let_def split: sum.splits)

lemma build_length: "build m = Inr cs \<Longrightarrow> length (commands cs) = length (m_mutations m)"
  by (auto simp: build_def build_loop_length split: sum.splits)

lemma sum_list_update:
  "i < length xs \<Longrightarrow>
   sum_list (map f (xs[i := x])) + f (xs ! i) = sum_list (map f xs) + (f x :: nat)"
proof (induction xs arbitrary: i)
  case Nil
  then show ?case by simp
next
  case (Cons a xs)
  then show ?case by (cases i) auto
qed

lemma sps_setter_fields [simp]:
  "shiftOffset (setCommandState cs i sps) = shiftOffset sps"
  "shiftOffset (setShiftOffset offset sps) = offset"
  "commandStates (setCommandState cs i sps) = (commandStates sps)[i := cs]"
  "commandStates (setShiftOffset offset sps) = commandStates sps"
  "splitSubPaths (setCommandState cs i sps) = splitSubPaths sps"
  "splitSubPaths (setShiftOffset offset sps) = splitSubPaths sps"
  by (simp_all add: setCommandState_def setCommandStates_def setShiftOffset_def)

lemma split_result_offset:
  assumes l: "lookupSubPath pm subIdx = Inr (cmsIdx, sps)"
    and cm: "cmIdx < length (commandStates sps)" "commandStates sps ! cmIdx = targetCm"
    and len: "length (getCommands targetCm) = length (mutations targetCm)"
    and b: "build m = Inr cs"
    and grow: "getSvgChar (backingCommand targetCm) \<noteq> SvgM \<longrightarrow>
                 length (m_mutations m) = length (mutations targetCm) + n"
  shows "\<exists>sps'. findSubPathState
                   (subPathStateMap
                      (setSubPathState (setCommandState cs cmIdx (setShiftOffset offset sps))
                         cmsIdx pm)) cmsIdx = Some sps'
           \<and> shiftOffset sps' = offset
           \<and> (getSvgChar (backingCommand targetCm) \<noteq> SvgM \<longrightarrow>
                 numCommandsInSubPath sps' = numCommandsInSubPath sps + n)"
proof -
  let ?new = "setCommandState cs cmIdx (setShiftOffset offset sps)"
  note lk = lookupSubPath_Inr[OF l]
  have leaf: "splitSubPaths ?new = []" using lk(6) by simp
  have "flattenSubPathStates (subPathStateMap (setSubPathState ?new cmsIdx pm))
      = (flattenSubPathStates (subPathStateMap pm))[cmsIdx := ?new]"
    using lk(3) leaf by (rule setSubPathState_leaf)
  then have f: "findSubPathState (subPathStateMap (setSubPathState ?new cmsIdx pm)) cmsIdx = Some ?new"
    using lk(3) by (simp add: findSubPathState_def nth_opt_def)
  have n: "numCommandsInSubPath ?new = numCommandsInSubPath sps + n"
    if nm: "getSvgChar (backingCommand targetCm) \<noteq> SvgM"
  proof -
    have "length (getCommands cs) = length (mutations targetCm) + n"
      using build_length[OF b] grow nm by (simp add: getCommands_def)
    with sum_list_update[OF cm(1), of "\<lambda>cm. length (getCommands cm)" cs] cm(2) len
    show ?thesis by (simp add: numCommandsInSubPath_def)
  qed
  from f n show ?thesis by simp
qed


lemma strokeLoop_after:
  "cmIdx < i \<Longrightarrow>
   strokeLoop nc cmIdx splitIdx css i s e c = Inr (s, e @ css, c)"
  by (induction css arbitrary: i s e) simp_all

lemma strokeLoop_at:
  assumes "i \<le> cmIdx" "cmIdx - i < length css" "0 \<le> splitIdx"
    and "nat splitIdx < length (getCommands (css ! (cmIdx - i)))"
    and "fork (css ! (cmIdx - i)) (nat splitIdx) = Inr (left, right)"
  shows "strokeLoop nc cmIdx splitIdx css i s e c
           = Inr (s @ take (cmIdx - i) css @ [left],
                  e @ [new_CommandState nc
                         (fst (newCommand SvgM
                            [getEnd (getCommands (css ! (cmIdx - i)) ! nat splitIdx),
                             getEnd (getCommands (css ! (cmIdx - i)) ! nat splitIdx)] c))]
                    @ (if getCommands right \<noteq> [] then [right] else [])
                    @ drop (cmIdx - i + 1) css,
                  c + 1)"
  using assms
proof (induction css arbitrary: i s e)
  case Nil
  then show ?case by simp
next
  case (Cons cs rest)
  show ?case
  proof (cases "i < cmIdx")
    case True
    then have d: "cmIdx - i = Suc (cmIdx - (i + 1))" by simp
    from Cons.prems True have p: "i + 1 \<le> cmIdx" "cmIdx - (i + 1) < length rest"
      "nat splitIdx < length (getCommands (rest ! (cmIdx - (i + 1))))"
      "fork (rest ! (cmIdx - (i + 1))) (nat splitIdx) = Inr (left, right)"
      by (simp_all add: d)
    from Cons.IH[OF p(1) p(2) Cons.prems(3) p(3) p(4), of "s @ [cs]" e] True
    show ?thesis by (simp add: d)
  next
    case False
    with Cons.prems have eq: "cmIdx = i" by simp
    from Cons.prems have n: "nat splitIdx < length (getCommands cs)"
      and f: "fork cs (nat splitIdx) = Inr (left, right)" and nn: "\<not> splitIdx < 0"
      by (simp_all add: eq)
    show ?thesis
      by (simp add: eq nn nth_opt_def n f Let_def newCommand_def uniqueId_def
          strokeLoop_after)
  qed
qed

lemma fork_commands:
  assumes "fork cs i = Inr (left, right)"
  shows "length (getCommands left) + length (getCommands right) = length (mutations cs)"
proof -
  note f = fork_fields[OF assms]
  from assms obtain ml mr where bl: "build ml = Inr left" and br: "build mr = Inr right"
    by (auto simp: fork_def andThen_def split: sum.splits)
  from build_length[OF bl] build_fields[OF bl] f(2)
  have l: "length (getCommands left) = length (take (i + 1) (mutations cs))"
    by (simp add: getCommands_def)
  from build_length[OF br] build_fields[OF br] f(5)
  have r: "length (getCommands right) = length (drop (i + 1) (mutations cs))"
    by (simp add: getCommands_def)
  from l r f(1) show ?thesis by simp
qed

lemma sum_list_split_at:
  "k < length xs \<Longrightarrow>
   sum_list (map f xs) = sum_list (map f (take k xs)) + f (xs ! k) + (sum_list (map f (drop (k + 1) xs)) :: nat)"
  by (metis (no_types, lifting) Suc_eq_plus1 add.assoc id_take_nth_drop list.simps(9) map_append
      sum_list.Cons sum_list.append)

lemma sps_stroke_fields [simp]:
  "splitSubPaths (setId ident node) = splitSubPaths node"
  "splitSubPaths (setSplitSubPaths subs node) = subs"
  "commandStates (setId ident node) = commandStates node"
  "commandStates (setSplitSubPaths subs node) = commandStates node"
  "commandStates (setCommandStates css node) = css"
  "sps_id (setId ident node) = ident"
  by (cases node; simp add: setId_def setSplitSubPaths_def setCommandStates_def)+

section \<open>Splitting a Move-backed command state\<close>

text \<open>
  Claim C10. When the backing command is a Move, the private \<^verbatim>\<open>split\<close>, and with it
  \<^verbatim>\<open>splitAtIndex\<close> and \<^verbatim>\<open>splitInHalfAtIndex\<close>, returns the mutator as it is: the
  mutation list, \<open>minT\<close> and \<open>maxT\<close> (and every other field, and the id counter) are
  unchanged, and no error is raised, whatever the split index and the values.
\<close>

theorem split_Move_noop:
  "getSvgChar (m_backingCommand m) = SvgM \<Longrightarrow>
     split_ts ts m idCounter = Inr (m, idCounter)
   \<and> splitAtIndex splitIdx ts m idCounter = Inr (m, idCounter)
   \<and> splitInHalfAtIndex splitIdx m idCounter = Inr (m, idCounter)"
  by (simp add: split_ts_def splitAtIndex_def splitInHalfAtIndex_def Let_def split: option.splits)

theorem split_Move_noop_witness:
  "getSvgChar (m_backingCommand (mutate moveState)) = SvgM
   \<and> split_ts [1 / 3] (mutate moveState) 7 = Inr (mutate moveState, 7)
   \<and> splitAtIndex 0 [1 / 3] (mutate moveState) 7 = Inr (mutate moveState, 7)
   \<and> splitInHalfAtIndex 0 (mutate moveState) 7 = Inr (mutate moveState, 7)"
proof -
  have h: "getSvgChar (m_backingCommand (mutate moveState)) = SvgM"
    by (simp add: mutate_def moveState_def new_CommandState_def moveCommand_def)
  show ?thesis
    using h split_Move_noop [OF h, of "[1 / 3]" 7 0] by simp
qed

section \<open>Projection onto a command state\<close>




section \<open>Merging two command states\<close>

text \<open>
  Claim C6. \<^verbatim>\<open>a.mutate().merge(b)\<close> always returns a mutator (the function has no
  error result): its \<open>minT\<close> is the smaller and its \<open>maxT\<close> the larger of the two, its
  mutation list holds exactly the mutations of \<open>a\<close> and of \<open>b\<close> (as a multiset, so with
  repetitions when both sides hold the same mutation), and it is sorted by \<open>t\<close> whenever
  the list of \<open>a\<close> was. Ids present on both sides only add a warning to the log, one per
  mutation of \<open>b\<close> whose id \<open>a\<close> already had.
\<close>

theorem merge_union:
  "(case merge b (mutate a) of (m', warnings) \<Rightarrow>
      m_minT m' = min (minT a) (minT b)
    \<and> m_maxT m' = max (maxT a) (maxT b)
    \<and> mset (m_mutations m') = mset (mutations a) + mset (mutations b)
    \<and> (sorted (map mut_t (mutations a)) \<longrightarrow> sorted (map mut_t (m_mutations m')))
    \<and> warnings = filter (\<lambda>i. i \<in> mut_id ` set (mutations a)) (map mut_id (mutations b))
    \<and> m_backingCommand m' = backingCommand a \<and> m_calculator m' = calculator a)"
proof -
  obtain muts w where l: "merge_loop (set (map mut_id (mutations a))) (mutations b) (mutations a) [] = (muts, w)"
    by (cases "merge_loop (set (map mut_id (mutations a))) (mutations b) (mutations a) []")
  have 1: "mset muts = mset (mutations a) + mset (mutations b)"
    using merge_loop_mset[of "set (map mut_id (mutations a))" "mutations b" "mutations a" "[]"] l by simp
  have 2: "sorted (map mut_t (mutations a)) \<Longrightarrow> sorted (map mut_t muts)"
    using merge_loop_sorted[of "mutations a" "set (map mut_id (mutations a))" "mutations b" "[]"] l by simp
  have 3: "w = filter (\<lambda>i. i \<in> mut_id ` set (mutations a)) (map mut_id (mutations b))"
    using merge_loop_warnings[of "set (map mut_id (mutations a))" "mutations b" "mutations a" "[]"] l by simp
  show ?thesis
    using l 1 2 3 by (simp add: merge_def mutate_def Let_def)
qed

text \<open>Witness: a state merged with itself (every id on both sides), and the two halves
  of a fork merged back.\<close>

theorem merge_union_witness:
  "sorted (map mut_t (mutations splitLineState))
   \<and> map mut_id (m_mutations (fst (merge splitLineState (mutate splitLineState))))
       = [10, 10, 11, 11, 2, 2]
   \<and> snd (merge splitLineState (mutate splitLineState)) = [10, 11, 2]
   \<and> sorted (map mut_t (m_mutations (fst (merge splitLineState (mutate splitLineState)))))
   \<and> map mut_id (m_mutations (fst (merge rightLineState (mutate leftLineState)))) = [10, 11, 2]
   \<and> snd (merge rightLineState (mutate leftLineState)) = []"
proof -
  have s: "sorted (map mut_t (mutations splitLineState))" by code_simp
  have e: "map mut_id (m_mutations (fst (merge splitLineState (mutate splitLineState))))
       = [10, 10, 11, 11, 2, 2]" by code_simp
  have w: "snd (merge splitLineState (mutate splitLineState)) = [10, 11, 2]" by code_simp
  have e': "map mut_id (m_mutations (fst (merge rightLineState (mutate leftLineState)))) = [10, 11, 2]"
    by code_simp
  have w': "snd (merge rightLineState (mutate leftLineState)) = []" by code_simp
  from merge_union [of splitLineState splitLineState] s
  have "sorted (map mut_t (m_mutations (fst (merge splitLineState (mutate splitLineState)))))"
    by (simp add: split_beta)
  with s e w e' w' show ?thesis by simp
qed

section \<open>Splitting in half\<close>




section \<open>Round trip of split and unsplit\<close>




section \<open>Invariants of reachable command states\<close>

text \<open>
  Claim C4, as amended. Every command state reachable from a fresh one through
  \<^verbatim>\<open>splitAtIndex\<close>, \<^verbatim>\<open>splitInHalfAtIndex\<close>, \<^verbatim>\<open>unsplitAtIndex\<close>, \<^verbatim>\<open>convertAtIndex\<close>,
  \<^verbatim>\<open>unconvertSubpath\<close>, \<^verbatim>\<open>fork\<close>, \<^verbatim>\<open>merge\<close> and \<^verbatim>\<open>revert\<close> (with arguments as described
  at \<open>reachable\<close>) has a mutation list that is not empty and sorted ascending by \<open>t\<close>;
  its last mutation has \<open>t = maxT\<close>, which is never above \<open>1\<close>, and is \<open>1\<close> unless the state
  descends from the left half of a fork (it is such a half, or was made from such a
  half by later operations, a merge counting only when both merged states do); and no
  \<open>t\<close> lies below \<open>minT\<close>. The closepath rule is
  enforced by two operations rather than kept by all: after a split that inserts
  something no mutation except the last has the closepath kind, and after
  \<^verbatim>\<open>unconvertSubpath\<close> on a closepath-backed state every mutation except the last is a
  line.
\<close>

theorem reachable_mutation_invariant:
  "(reachable newCalculator wasCut cs \<longrightarrow>
      mutations cs \<noteq> [] \<and> sorted (map mut_t (mutations cs))
      \<and> mut_t (last (mutations cs)) = maxT cs
      \<and> (\<not> wasCut \<longrightarrow> mut_t (last (mutations cs)) = 1)
      \<and> (\<forall>x\<in>set (mutations cs). minT cs \<le> mut_t x)
      \<and> 0 \<le> minT cs \<and> maxT cs \<le> 1)
   \<and> (ts \<noteq> [] \<and> getSvgChar (m_backingCommand m) \<noteq> SvgM
        \<and> split_ts ts m idCounter = Inr (m', idCounter')
      \<longrightarrow> (\<forall>x\<in>set (butlast (m_mutations m')). mut_svgChar x \<noteq> Some SvgZ))
   \<and> (getSvgChar (m_backingCommand m) = SvgZ
      \<longrightarrow> (\<forall>x\<in>set (butlast (m_mutations (unconvertSubpath m))). mut_svgChar x = Some SvgL))"
proof (intro conjI impI)
  assume r: "reachable newCalculator wasCut cs"
  from reachable_ok[OF r]
  have ok: "mutations_ok (minT cs) (maxT cs) (map mut_t (mutations cs))" .
  then show "mutations cs \<noteq> []" "sorted (map mut_t (mutations cs))"
    "0 \<le> minT cs" "maxT cs \<le> 1" "\<forall>x\<in>set (mutations cs). minT cs \<le> mut_t x"
    by (auto simp: mutations_ok_def)
  from ok show l: "mut_t (last (mutations cs)) = maxT cs"
    by (auto simp: mutations_ok_def last_map)
  assume "\<not> wasCut"
  with reachable_uncut[OF r] l show "mut_t (last (mutations cs)) = 1" by simp
next
  assume a: "ts \<noteq> [] \<and> getSvgChar (m_backingCommand m) \<noteq> SvgM
        \<and> split_ts ts m idCounter = Inr (m', idCounter')"
  then obtain muts where "m_mutations m' = forceLines muts"
    by (auto simp: split_ts_def Let_def split: prod.splits)
  then show "\<forall>x\<in>set (butlast (m_mutations m')). mut_svgChar x \<noteq> Some SvgZ"
    using forceLines_no_close[of muts] by simp
next
  assume "getSvgChar (m_backingCommand m) = SvgZ"
  then show "\<forall>x\<in>set (butlast (m_mutations (unconvertSubpath m))). mut_svgChar x = Some SvgL"
    by (rule unconvert_kinds)
qed

text \<open>Witness: a split closepath state and its left half after a fork; the split that
  produced it; and \<^verbatim>\<open>unconvertSubpath\<close> on a converted closepath state.\<close>

theorem reachable_mutation_invariant_witness:
  "reachable pointCalculatorOf True closeLeftState
   \<and> sorted (map mut_t (mutations closeLeftState))
   \<and> mut_t (last (mutations closeLeftState)) = maxT closeLeftState
   \<and> maxT closeLeftState = 1 / 2
   \<and> reachable pointCalculatorOf False closeSplitState
   \<and> mut_t (last (mutations closeSplitState)) = 1
   \<and> map mut_svgChar (mutations closeSplitState) = [Some SvgL, Some SvgZ]
   \<and> map mut_svgChar (m_mutations (unconvertSubpath (mutate closeConvertedState)))
       = [Some SvgL, Some SvgZ]"
proof -
  let ?M = "(mutate closeState)\<lparr>m_mutations :=
              [\<lparr>mut_id = 101, mut_t = 1 / 2, mut_svgChar = Some SvgL\<rparr>,
               \<lparr>mut_id = 3, mut_t = 1, mut_svgChar = Some SvgZ\<rparr>]\<rparr>"
  have s: "[1 / 2 :: rat] \<noteq> [] \<and> getSvgChar (m_backingCommand (mutate closeState)) \<noteq> SvgM
        \<and> split_ts [1 / 2] (mutate closeState) 100 = Inr (?M, 101)"
    using closeState_split
    by (simp add: splitAtIndex_def nth_opt_def lerp_unit_half Let_def mutate_def closeState_def
        new_CommandState_def closeCommand_def)
  have z: "getSvgChar (m_backingCommand (mutate closeConvertedState)) = SvgZ"
    by (simp add: mutate_def closeConvertedState_def closeCommand_def)
  have k1: "map mut_svgChar (mutations closeSplitState) = [Some SvgL, Some SvgZ]"
    by (simp add: closeSplitState_def)
  have k2: "map mut_svgChar (m_mutations (unconvertSubpath (mutate closeConvertedState)))
      = [Some SvgL, Some SvgZ]"
    by (simp add: unconvertSubpath_def mutate_def closeConvertedState_def closeCommand_def Let_def
        upt_rec)
  have m: "maxT closeLeftState = 1 / 2" by (simp add: closeLeftState_def)
  from reachable_mutation_invariant [of pointCalculatorOf True closeLeftState "[1 / 2]"
      "mutate closeState" 100 ?M 101] reachable_closeLeftState
  have a: "sorted (map mut_t (mutations closeLeftState))
   \<and> mut_t (last (mutations closeLeftState)) = maxT closeLeftState" by blast
  from reachable_mutation_invariant [of pointCalculatorOf False closeSplitState "[1 / 2]"
      "mutate closeState" 100 ?M 101] reachable_closeSplitState
  have b: "mut_t (last (mutations closeSplitState)) = 1" by blast
  from a b reachable_closeLeftState reachable_closeSplitState k1 k2 m show ?thesis by simp
qed

text \<open>Counterexample to the claim as stated: the left half of a fork ends at
  \<open>t = 1/2\<close>, not at \<open>1\<close>; and \<^verbatim>\<open>convertAtIndex\<close> leaves a cubic before the last mutation
  of a closepath-backed state.\<close>

theorem reachable_last_t_counterexample:
  "reachable pointCalculatorOf True closeLeftState
   \<and> mut_t (last (mutations closeLeftState)) = 1 / 2
   \<and> reachable pointCalculatorOf False closeConvertedState
   \<and> getSvgChar (backingCommand closeConvertedState) = SvgZ
   \<and> map mut_svgChar (mutations closeConvertedState) = [Some SvgC, Some SvgZ]"
  using reachable_closeLeftState reachable_closeConvertedState
  by (simp add: closeLeftState_def closeConvertedState_def closeCommand_def)

section \<open>Continuity after build\<close>

text \<open>
  Claim C1. Whenever every entry of the ordering names a leaf (otherwise \<^verbatim>\<open>build()\<close>
  fails with a \<^verbatim>\<open>TypeError\<close>), \<^verbatim>\<open>build()\<close> returns a snapshot in whose command list the
  first command has no start point and every later command starts at the end point of
  the command before it, whatever points the commands held before and whatever
  \<^verbatim>\<open>toSubPaths()\<close> returns.
\<close>

theorem build_continuity:
  assumes "\<forall>k\<in>set (subPathOrdering pm). k < length (flattenSubPathStates (subPathStateMap pm))"
  shows "\<exists>ps. PathMutator_build toCommands pm = Inr ps
           \<and> (ps_commands ps \<noteq> [] \<longrightarrow> getStart (hd (ps_commands ps)) = None)
           \<and> (\<forall>i. 0 < i \<and> i < length (ps_commands ps) \<longrightarrow>
                  getStart (ps_commands ps ! i) = getEnd (ps_commands ps ! (i - 1)))"
proof -
  let ?cmds = "map toCommands (flattenSubPathStates (subPathStateMap pm))"
  have "None \<notin> set (map (nth_opt ?cmds) (subPathOrdering pm))"
    using assms by (auto simp: nth_opt_def)
  then obtain cmds where
    "PathMutator_build toCommands pm =
       Inr \<lparr>ps_commands = relink cmds,
            ps_subPathStateMap = subPathStateMap pm,
            ps_subPathOrdering = subPathOrdering pm,
            ps_numCollapsingSubPaths = numCollapsingSubPaths pm\<rparr>"
    by (simp add: PathMutator_build_def Let_def)
  then show ?thesis
    using relink_linked(1)[of cmds] relink_linked(2)[of _ cmds] by simp
qed

text \<open>Witness: a Move and a line whose stored points do not meet.\<close>

theorem build_continuity_witness:
  "map_sum id (\<lambda>ps. map getPoints (ps_commands ps)) (PathMutator_build storedCommands loosePath)
     = Inr [[None, Some (1, 1)], [Some (1, 1), Some (2, 2)]]"
proof -
  have v: "\<forall>k\<in>set (subPathOrdering loosePath).
             k < length (flattenSubPathStates (subPathStateMap loosePath))"
    by (simp add: loosePath_def flattenSubPathStates_def)
  have e: "map_sum id (\<lambda>ps. map getPoints (ps_commands ps)) (PathMutator_build storedCommands loosePath)
     = Inr [[None, Some (1, 1)], [Some (1, 1), Some (2, 2)]]"
    by (simp add: PathMutator_build_def loosePath_def flattenSubPathStates_def nth_opt_def
        storedCommands_def getCommands_def new_CommandState_def relink_def Let_def
        getStart_def getEnd_def setFirstPoint_def looseMove_def looseLine_def)
  from build_continuity [OF v, of storedCommands] e show ?thesis by simp
qed

section \<open>Shifting and reversing a sub-path of at most one command\<close>

text \<open>
  Claim C9, as amended. For a visible sub-path index that resolves to a leaf with at
  most one command, \<^verbatim>\<open>shiftSubPathForward\<close> and \<^verbatim>\<open>shiftSubPathBack\<close> return the
  mutator unchanged, without error. \<^verbatim>\<open>reverseSubPath\<close> raises no error either, but it
  has no such guard: it puts the leaf with its \<open>isReversed\<close> flag toggled in place of the
  old one, and changes nothing else (the other leaves, the ordering and the number of
  collapsing sub-paths stay).
\<close>

theorem shift_single_command_noop:
  assumes "lookupSubPath pm subIdx = Inr (cmsIdx, sps)"
    and "numCommandsInSubPath sps \<le> 1"
  shows "shiftSubPathForward subIdx numShifts pm = Inr pm
       \<and> shiftSubPathBack subIdx numShifts pm = Inr pm
       \<and> (\<exists>pm'. reverseSubPath subIdx pm = Inr pm'
              \<and> flattenSubPathStates (subPathStateMap pm')
                   = (flattenSubPathStates (subPathStateMap pm))[cmsIdx := sps_reverse sps]
              \<and> subPathOrdering pm' = subPathOrdering pm
              \<and> numCollapsingSubPaths pm' = numCollapsingSubPaths pm)"
proof -
  have s: "shift subIdx f pm = Inr pm" for f
    using assms by (simp add: shift_def Let_def)
  have leaf: "splitSubPaths (sps_reverse sps) = []"
    using lookupSubPath_Inr(6)[OF assms(1)] by (simp add: sps_reverse_def)
  have "flattenSubPathStates (subPathStateMap (setSubPathState (sps_reverse sps) cmsIdx pm))
                   = (flattenSubPathStates (subPathStateMap pm))[cmsIdx := sps_reverse sps]"
    using lookupSubPath_Inr(3)[OF assms(1)] leaf by (rule setSubPathState_leaf)
  then show ?thesis
    using assms(1) s by (simp add: shiftSubPathForward_def shiftSubPathBack_def reverseSubPath_def)
qed

text \<open>Witness: the path of a single Move.\<close>

theorem shift_single_command_noop_witness:
  "numCommandsInSubPath (SubPathState [moveState] False 0 24 []) \<le> 1
   \<and> shiftSubPathForward 0 1 singlePath = Inr singlePath
   \<and> shiftSubPathBack 0 1 singlePath = Inr singlePath
   \<and> map_sum id (\<lambda>pm. map isReversed (flattenSubPathStates (subPathStateMap pm)))
         (reverseSubPath 0 singlePath) = Inr [True]"
proof -
  have l: "lookupSubPath singlePath 0 = Inr (0, SubPathState [moveState] False 0 24 [])"
    by (simp add: lookupSubPath_def singlePath_def findSubPathState_def flattenSubPathStates_def
        nth_opt_def)
  have n: "numCommandsInSubPath (SubPathState [moveState] False 0 24 []) \<le> 1"
    by (simp add: numCommandsInSubPath_def getCommands_def moveState_def new_CommandState_def)
  have f: "flattenSubPathStates (subPathStateMap singlePath) = [SubPathState [moveState] False 0 24 []]"
    by (simp add: singlePath_def flattenSubPathStates_def)
  from shift_single_command_noop [OF l n, of 1] n f show ?thesis
    by (auto simp: sps_reverse_def)
qed

text \<open>Counterexample to the claim as stated: reversing the single-command sub-path
  changes the state of the mutator.\<close>

theorem reverse_single_command_counterexample:
  "numCommandsInSubPath (SubPathState [moveState] False 0 24 []) = 1
   \<and> lookupSubPath singlePath 0 = Inr (0, SubPathState [moveState] False 0 24 [])
   \<and> reverseSubPath 0 singlePath
       = Inr (singlePath\<lparr>subPathStateMap := [SubPathState [moveState] True 0 24 []]\<rparr>)
   \<and> singlePath\<lparr>subPathStateMap := [SubPathState [moveState] True 0 24 []]\<rparr> \<noteq> singlePath"
  by (simp add: reverseSubPath_def lookupSubPath_def singlePath_def findSubPathState_def
      flattenSubPathStates_def nth_opt_def setSubPathState_def sps_reverse_def
      numCommandsInSubPath_def getCommands_def moveState_def new_CommandState_def)

section \<open>Shift offset after a split\<close>

text \<open>
  Claim C8. Let a position resolve to a command state that is not backed by a Move, in a
  sub-path with a non-zero shift offset, and let the calculator be able to build the
  split state. Then \<^verbatim>\<open>splitCommand\<close> and \<^verbatim>\<open>splitCommandInHalf\<close> succeed; the sub-path holds
  as many more commands as split points were asked for (\<open>length ts\<close>, and one for the
  split in half); and its shift offset has grown by that number when the storage index
  of the split command is at most the old offset, and is the old offset otherwise.
\<close>

theorem split_updates_shiftOffset:
  assumes find: "findCommandStateInfo subIdx cmdIdx pm = Inr (targetCm, cmsIdx, cmIdx, splitIdx)"
    and sps: "findSubPathState (subPathStateMap pm) cmsIdx = Some sps"
    and nz: "shiftOffset sps \<noteq> 0"
    and len: "length (getCommands targetCm) = length (mutations targetCm)"
    and nm: "getSvgChar (backingCommand targetCm) \<noteq> SvgM"
    and ts: "ts \<noteq> []"
    and sp: "splitAtIndex (toIndex (length (mutations targetCm) + 1) splitIdx) ts
               (mutate targetCm) idCounter = Inr (m1, c1)"
    and b1: "build m1 = Inr cs1"
    and sh: "splitInHalfAtIndex (toIndex (length (mutations targetCm) + 1) splitIdx)
               (mutate targetCm) idCounter = Inr (m2, c2)"
    and b2: "build m2 = Inr cs2"
  shows "(\<exists>pm' sps'. splitCommand subIdx cmdIdx ts pm idCounter = Inr (pm', c1)
            \<and> findSubPathState (subPathStateMap pm') cmsIdx = Some sps'
            \<and> shiftOffset sps' = (if int cmIdx \<le> shiftOffset sps
                                   then shiftOffset sps + int (length ts) else shiftOffset sps)
            \<and> numCommandsInSubPath sps' = numCommandsInSubPath sps + length ts)
       \<and> (\<exists>pm' sps'. splitCommandInHalf subIdx cmdIdx pm idCounter = Inr (pm', c2)
            \<and> findSubPathState (subPathStateMap pm') cmsIdx = Some sps'
            \<and> shiftOffset sps' = (if int cmIdx \<le> shiftOffset sps
                                   then shiftOffset sps + 1 else shiftOffset sps)
            \<and> numCommandsInSubPath sps' = numCommandsInSubPath sps + 1)"
proof -
  from findCommandStateInfo_Inr[OF find] obtain sps0 where
    l0: "lookupSubPath pm subIdx = Inr (cmsIdx, sps0)"
    and cm0: "cmIdx < length (commandStates sps0)" "commandStates sps0 ! cmIdx = targetCm"
    by blast
  from lookupSubPath_Inr(5)[OF l0] sps have e: "sps0 = sps" by simp
  note l = l0[unfolded e] and cm = cm0[unfolded e]
  have off: "getUpdatedShiftOffsetsAfterSplit sps cmIdx k
      = (if int cmIdx \<le> shiftOffset sps then shiftOffset sps + int k else shiftOffset sps)" for k
    using nz by (simp add: getUpdatedShiftOffsetsAfterSplit_def)
  have nm': "getSvgChar (m_backingCommand (mutate targetCm)) \<noteq> SvgM"
    using nm by (simp add: mutate_fields)
  define pm1 where "pm1 = setSubPathState
      (setCommandState cs1 cmIdx
         (setShiftOffset (getUpdatedShiftOffsetsAfterSplit sps cmIdx (length ts)) sps)) cmsIdx pm"
  define pm2 where "pm2 = setSubPathState
      (setCommandState cs2 cmIdx
         (setShiftOffset (getUpdatedShiftOffsetsAfterSplit sps cmIdx 1) sps)) cmsIdx pm"
  have sp': "splitAtIndex (toIndex (Suc (length (mutations targetCm))) splitIdx) ts
               (mutate targetCm) idCounter = Inr (m1, c1)"
    using sp by simp
  have sh': "splitInHalfAtIndex (toIndex (Suc (length (mutations targetCm))) splitIdx)
               (mutate targetCm) idCounter = Inr (m2, c2)"
    using sh by simp
  have r1: "splitCommand subIdx cmdIdx ts pm idCounter = Inr (pm1, c1)"
    using ts by (simp add: splitCommand_def find sps sp' b1 Let_def pm1_def)
  have r2: "splitCommandInHalf subIdx cmdIdx pm idCounter = Inr (pm2, c2)"
    by (simp add: splitCommandInHalf_def find sps sh' b2 Let_def pm2_def)
  have g1: "getSvgChar (backingCommand targetCm) \<noteq> SvgM \<longrightarrow>
              length (m_mutations m1) = length (mutations targetCm) + length ts"
    using splitAtIndex_length[OF sp nm'] by (simp add: mutate_fields)
  have g2: "getSvgChar (backingCommand targetCm) \<noteq> SvgM \<longrightarrow>
              length (m_mutations m2) = length (mutations targetCm) + 1"
    using splitInHalfAtIndex_length[OF sh nm'] by (simp add: mutate_fields)
  from split_result_offset[OF l cm len b1 g1,
      of "getUpdatedShiftOffsetsAfterSplit sps cmIdx (length ts)"] nm
  obtain s1 where s1: "findSubPathState (subPathStateMap pm1) cmsIdx = Some s1"
    "shiftOffset s1 = getUpdatedShiftOffsetsAfterSplit sps cmIdx (length ts)"
    "numCommandsInSubPath s1 = numCommandsInSubPath sps + length ts"
    unfolding pm1_def by blast
  from split_result_offset[OF l cm len b2 g2,
      of "getUpdatedShiftOffsetsAfterSplit sps cmIdx 1"] nm
  obtain s2 where s2: "findSubPathState (subPathStateMap pm2) cmsIdx = Some s2"
    "shiftOffset s2 = getUpdatedShiftOffsetsAfterSplit sps cmIdx 1"
    "numCommandsInSubPath s2 = numCommandsInSubPath sps + 1"
    unfolding pm2_def by blast
  have o1: "shiftOffset s1 = (if int cmIdx \<le> shiftOffset sps
                                   then shiftOffset sps + int (length ts) else shiftOffset sps)"
    using s1(2) off by simp
  have o2: "shiftOffset s2 = (if int cmIdx \<le> shiftOffset sps
                                   then shiftOffset sps + 1 else shiftOffset sps)"
    using s2(2) off[of 1] by simp
  from r1 s1(1) o1 s1(3) r2 s2(1) o2 s2(3) show ?thesis by blast
qed

text \<open>Witness: a sub-path of a Move and two lines with shift offset 1. Position 0
  resolves to storage index 1 (at the pivot: the offset becomes 2), position 1 to
  storage index 2 (past the pivot: the offset stays 1); each way the sub-path has four
  commands afterwards.\<close>

theorem split_updates_shiftOffset_witness:
  "(\<exists>pm' sps'. splitCommand 0 0 [1 / 2] shiftedPath 100 = Inr (pm', 101)
       \<and> findSubPathState (subPathStateMap pm') 0 = Some sps'
       \<and> shiftOffset sps' = 2 \<and> numCommandsInSubPath sps' = 4)
   \<and> (\<exists>pm' sps'. splitCommandInHalf 0 0 shiftedPath 100 = Inr (pm', 101)
       \<and> findSubPathState (subPathStateMap pm') 0 = Some sps'
       \<and> shiftOffset sps' = 2 \<and> numCommandsInSubPath sps' = 4)
   \<and> (\<exists>pm' sps'. splitCommand 0 1 [1 / 2] shiftedPath 100 = Inr (pm', 101)
       \<and> findSubPathState (subPathStateMap pm') 0 = Some sps'
       \<and> shiftOffset sps' = 1 \<and> numCommandsInSubPath sps' = 4)
   \<and> (\<exists>pm' sps'. splitCommandInHalf 0 1 shiftedPath 100 = Inr (pm', 101)
       \<and> findSubPathState (subPathStateMap pm') 0 = Some sps'
       \<and> shiftOffset sps' = 1 \<and> numCommandsInSubPath sps' = 4)"
proof -
  let ?S = "SubPathState [moveState, lineState, lineState] False 1 25 []"
  let ?M = "(mutate lineState)\<lparr>m_mutations :=
              [\<lparr>mut_id = 101, mut_t = 1 / 2, mut_svgChar = Some SvgL\<rparr>,
               \<lparr>mut_id = 2, mut_t = 1, mut_svgChar = Some SvgL\<rparr>]\<rparr>"
  have nz: "shiftOffset ?S \<noteq> 0" by simp
  have len: "length (getCommands lineState) = length (mutations lineState)"
    by (simp add: getCommands_def lineState_def new_CommandState_def)
  have ix: "toIndex (length (mutations lineState) + 1) 0 = 0" by (simp add: toIndex_def)
  have nm: "getSvgChar (backingCommand lineState) \<noteq> SvgM"
    by (simp add: lineState_def new_CommandState_def lineCommand_def)
  have ne: "[1 / 2 :: rat] \<noteq> []" by simp
  have sp: "splitAtIndex (toIndex (length (mutations lineState) + 1) 0) [1 / 2]
              (mutate lineState) 100 = Inr (?M, 101)"
    unfolding ix by (rule lineState_split)
  have sh: "splitInHalfAtIndex (toIndex (length (mutations lineState) + 1) 0)
              (mutate lineState) 100 = Inr (?M, 101)"
    unfolding ix by (rule lineState_splitInHalf)
  have n3: "numCommandsInSubPath ?S = 3"
    by (simp add: numCommandsInSubPath_def getCommands_def moveState_def lineState_def
        new_CommandState_def)
  from split_updates_shiftOffset [OF shiftedPath_find0 shiftedPath_leaf nz len nm ne sp
      lineSplitState_built sh lineSplitState_built]
  have a: "(\<exists>pm' sps'. splitCommand 0 0 [1 / 2] shiftedPath 100 = Inr (pm', 101)
       \<and> findSubPathState (subPathStateMap pm') 0 = Some sps'
       \<and> shiftOffset sps' = 2 \<and> numCommandsInSubPath sps' = 4)
   \<and> (\<exists>pm' sps'. splitCommandInHalf 0 0 shiftedPath 100 = Inr (pm', 101)
       \<and> findSubPathState (subPathStateMap pm') 0 = Some sps'
       \<and> shiftOffset sps' = 2 \<and> numCommandsInSubPath sps' = 4)"
    by (simp add: n3)
  from split_updates_shiftOffset [OF shiftedPath_find1 shiftedPath_leaf nz len nm ne sp
      lineSplitState_built sh lineSplitState_built]
  have b: "(\<exists>pm' sps'. splitCommand 0 1 [1 / 2] shiftedPath 100 = Inr (pm', 101)
       \<and> findSubPathState (subPathStateMap pm') 0 = Some sps'
       \<and> shiftOffset sps' = 1 \<and> numCommandsInSubPath sps' = 4)
   \<and> (\<exists>pm' sps'. splitCommandInHalf 0 1 shiftedPath 100 = Inr (pm', 101)
       \<and> findSubPathState (subPathStateMap pm') 0 = Some sps'
       \<and> shiftOffset sps' = 1 \<and> numCommandsInSubPath sps' = 4)"
    by (simp add: n3)
  from a b show ?thesis by blast
qed

section \<open>Splitting a stroked sub-path\<close>

text \<open>
  Claim C7. For a leaf sub-path and a command position that resolves to a command of one
  of its command states, \<open>splitStrokedSubPath\<close> succeeds and replaces the leaf by a node
  with two children: in the list of leaves the sub-path gives way to exactly two leaves
  with fresh ids, whose command counts add up to the count of the original sub-path
  plus one (the seam Move), and the ordering grows by the one entry
  \<open>length (subPathOrdering pm)\<close>.
\<close>

theorem splitStrokedSubPath_two_leaves:
  assumes find: "findCommandStateInfo subIdx cmdIdx pm = Inr (targetCm, cmsIdx, cmIdx, splitIdx)"
    and sps: "findSubPathState (subPathStateMap pm) cmsIdx = Some sps"
    and nn: "0 \<le> splitIdx"
    and len: "length (getCommands targetCm) = length (mutations targetCm)"
    and fk: "fork targetCm (nat splitIdx) = Inr (left, right)"
  shows "\<exists>pm' c1 c2.
           splitStrokedSubPath newCalculator subIdx cmdIdx pm idCounter = Inr (pm', idCounter + 3)
         \<and> flattenSubPathStates (subPathStateMap pm')
             = replaceAt cmsIdx [c1, c2] (flattenSubPathStates (subPathStateMap pm))
         \<and> splitSubPaths c1 = [] \<and> splitSubPaths c2 = []
         \<and> sps_id c1 = idCounter + 2 \<and> sps_id c2 = idCounter + 3
         \<and> numCommandsInSubPath c1 + numCommandsInSubPath c2 = numCommandsInSubPath sps + 1
         \<and> subPathOrdering pm' = subPathOrdering pm @ [length (subPathOrdering pm)]"
proof -
  from findCommandStateInfo_Inr[OF find] obtain sps0 where
    l: "lookupSubPath pm subIdx = Inr (cmsIdx, sps0)"
    and cm: "cmIdx < length (commandStates sps0)" "commandStates sps0 ! cmIdx = targetCm"
    and si: "splitIdx < int (length (getCommands targetCm))"
    by blast
  note L = lookupSubPath_Inr[OF l]
  from L(5) sps have same: "sps0 = sps" by simp
  note cm' = cm[unfolded same]
  let ?css = "commandStates sps"
  define seam where "seam = fst (newCommand SvgM
      [getEnd (getCommands targetCm ! nat splitIdx), getEnd (getCommands targetCm ! nat splitIdx)]
      idCounter)"
  define S where "S = take cmIdx ?css @ [left]"
  define E where "E = [new_CommandState newCalculator seam]
      @ (if getCommands right \<noteq> [] then [right] else []) @ drop (cmIdx + 1) ?css"
  define c1 where "c1 = setId (idCounter + 2) (setSplitSubPaths [] (setCommandStates S sps))"
  define c2 where "c2 = setId (idCounter + 3) (setSplitSubPaths [] (setCommandStates E sps))"
  define node where "node = setSplitSubPaths [c1, c2] sps"
  define pm1 where "pm1 = setSubPathState node cmsIdx pm"
  define pm' where "pm' = pm1\<lparr>subPathOrdering := subPathOrdering pm1 @ [length (subPathOrdering pm1)]\<rparr>"
  from nn si have n: "nat splitIdx < length (getCommands (?css ! (cmIdx - 0)))"
    by (simp add: cm')
  have f0: "fork (?css ! (cmIdx - 0)) (nat splitIdx) = Inr (left, right)"
    by (simp add: cm' fk)
  have c0: "cmIdx - 0 < length ?css" by (simp add: cm')
  from strokeLoop_at[OF le0 c0 nn n f0, of newCalculator "[]" "[]" idCounter]
  have loop: "strokeLoop newCalculator cmIdx splitIdx ?css 0 [] [] idCounter
                = Inr (S, E, idCounter + 1)"
    by (simp add: S_def E_def seam_def cm')
  have res: "splitStrokedSubPath newCalculator subIdx cmdIdx pm idCounter = Inr (pm', idCounter + 3)"
    by (simp add: splitStrokedSubPath_def find sps loop uniqueId_def Let_def pm'_def pm1_def
        node_def c1_def c2_def numeral_3_eq_3)
  have leaf1: "splitSubPaths c1 = []" and leaf2: "splitSubPaths c2 = []"
    by (simp_all add: c1_def c2_def)
  have sn: "splitSubPaths node = [c1, c2]" by (simp add: node_def)
  have fn: "flattenSubPathState node = [c1, c2]"
    unfolding flatten_node_simp[of node] sn
    by (simp add: flatten_leaf[OF leaf1] flatten_leaf[OF leaf2])
  have fl: "flattenSubPathStates (subPathStateMap pm')
              = replaceAt cmsIdx [c1, c2] (flattenSubPathStates (subPathStateMap pm))"
    using L(3) by (simp add: pm'_def pm1_def setSubPathState_flatten fn[unfolded node_def] node_def)
  have ord: "subPathOrdering pm' = subPathOrdering pm @ [length (subPathOrdering pm)]"
    by (simp add: pm'_def pm1_def)
  have seam1: "length (getCommands (new_CommandState newCalculator seam)) = 1"
    by (simp add: getCommands_def new_CommandState_def)
  let ?f = "\<lambda>cm. length (getCommands cm)"
  have nS: "numCommandsInSubPath c1 = sum_list (map ?f (take cmIdx ?css)) + ?f left"
    by (simp add: numCommandsInSubPath_def c1_def S_def)
  have nE: "numCommandsInSubPath c2 = 1 + ?f right + sum_list (map ?f (drop (cmIdx + 1) ?css))"
    by (simp add: numCommandsInSubPath_def c2_def E_def seam1)
  from sum_list_split_at[OF cm'(1), of ?f]
  have n0: "numCommandsInSubPath sps
      = sum_list (map ?f (take cmIdx ?css)) + ?f targetCm + sum_list (map ?f (drop (cmIdx + 1) ?css))"
    by (simp add: numCommandsInSubPath_def cm')
  from fork_commands[OF fk] len have "?f left + ?f right = ?f targetCm" by simp
  with nS nE n0 have cnt: "numCommandsInSubPath c1 + numCommandsInSubPath c2 = numCommandsInSubPath sps + 1"
    by simp
  have ids: "sps_id c1 = idCounter + 2" "sps_id c2 = idCounter + 3"
    by (simp_all add: c1_def c2_def)
  from res fl leaf1 leaf2 ids cnt ord show ?thesis by blast
qed

theorem splitStrokedSubPath_two_leaves_witness:
  "\<exists>pm' c1 c2. splitStrokedSubPath pointCalculatorOf 0 2 strokePath 200 = Inr (pm', 203)
      \<and> flattenSubPathStates (subPathStateMap pm') = [c1, c2]
      \<and> splitSubPaths c1 = [] \<and> splitSubPaths c2 = []
      \<and> sps_id c1 = 202 \<and> sps_id c2 = 203
      \<and> numCommandsInSubPath c1 + numCommandsInSubPath c2 = 5
      \<and> subPathOrdering pm' = [0, 1]"
proof -
  let ?S = "SubPathState [moveState, lineState, lineSplitState] False 0 26 []"
  have nn: "(0::int) \<le> 0" by simp
  have len: "length (getCommands lineSplitState) = length (mutations lineSplitState)"
    by (simp add: getCommands_def lineSplitState_def)
  have fk: "fork lineSplitState (nat 0) = Inr (lineLeftState, lineRightState)"
    by (simp add: lineSplitState_fork)
  have n4: "numCommandsInSubPath ?S = 4"
    by (simp add: numCommandsInSubPath_def getCommands_def moveState_def lineState_def
        lineSplitState_def new_CommandState_def)
  have fl: "flattenSubPathStates (subPathStateMap strokePath) = [?S]"
    by (simp add: strokePath_def flattenSubPathStates_def)
  have ord: "subPathOrdering strokePath = [0]" by (simp add: strokePath_def)
  from splitStrokedSubPath_two_leaves [OF strokePath_find strokePath_leaf nn len fk,
      of pointCalculatorOf 200]
  show ?thesis by (simp add: n4 fl ord replaceAt_def)
qed

end
